theory Spec2Isabelle
  imports Complex_Main "HOL-Library.Signed_Division" "HOL-Library.Multiset"
begin

section \<open>The local expansion of local\_expansion.h\<close>

text \<open>
  The class \<^verbatim>\<open>LocalExpansion<TKernel, TKernelDerivative>\<close> is embedded function by
  function. A \<^verbatim>\<open>double\<close> is a \<^typ>\<open>real\<close>: arithmetic is exact, there is no rounding,
  no infinity and no NaN. An \<^verbatim>\<open>int\<close> or \<^verbatim>\<open>index_t\<close> is an \<^typ>\<open>int\<close>, and overflow is
  not modelled. Every indexed access is bounds-checked, as the debug build of the
  containers does; an access out of range, a null pointer that is followed, a negative
  allocation length and an integer division by zero are faults, and a fault ends the call.
  A division of doubles by zero is no fault: IEEE arithmetic answers it with an infinity or
  a NaN, which the reals do not have, so the theorems on the values that
  \<^verbatim>\<open>OrderForEvaluating\<close> computes take the bandwidth positive and the factorials of the table
  nonzero, and then no divisor is zero.
\<close>

subsection \<open>Faults and containers\<close>

datatype fault = OutOfBounds | NullPointer | BadLength | DivisionByZero

definition bnd :: "fault + 'a \<Rightarrow> ('a \<Rightarrow> fault + 'b) \<Rightarrow> fault + 'b" where
  "bnd m f = (case m of Inl e \<Rightarrow> Inl e | Inr x \<Rightarrow> f x)"

text \<open>A \<^verbatim>\<open>for\<close> loop whose bounds are fixed when it is entered: the body runs on each
  index in turn and the first fault ends the loop.\<close>

fun forM :: "int list \<Rightarrow> (int \<Rightarrow> 's \<Rightarrow> fault + 's) \<Rightarrow> 's \<Rightarrow> fault + 's" where
  "forM [] body s = Inr s"
| "forM (i # is) body s = bnd (body i s) (forM is body)"

text \<open>Modelled from the spec: the containers \<^verbatim>\<open>Vector\<close>, \<^verbatim>\<open>Matrix\<close> and
  \<^verbatim>\<open>ArrayList\<close> are not among the sources. They are lists, read and written by index.
  Section 4.1 has the coefficient buffer allocated to a size and then zeroed, as two steps,
  and the source calls \<^verbatim>\<open>Init\<close> and then \<^verbatim>\<open>SetZero\<close>: \<^verbatim>\<open>Init(n)\<close> hands out \<open>n\<close>
  elements and writes none of them, \<^verbatim>\<open>SetZero\<close> writes zero to all of them.
  A matrix is stored by columns; \<^verbatim>\<open>get(r, c)\<close> reads row \<open>r\<close> of column \<open>c\<close>.\<close>

type_synonym Vector = "real list"

type_synonym Matrix = "real list list"

definition in_bounds :: "int \<Rightarrow> 'a list \<Rightarrow> bool" where
  "in_bounds i xs = (0 \<le> i \<and> i < int (length xs))"

definition elem_get :: "'a list \<Rightarrow> int \<Rightarrow> fault + 'a" where
  "elem_get xs i = (if in_bounds i xs then Inr (xs ! nat i) else Inl OutOfBounds)"

definition elem_set :: "'a list \<Rightarrow> int \<Rightarrow> 'a \<Rightarrow> fault + 'a list" where
  "elem_set xs i v = (if in_bounds i xs then Inr (xs[nat i := v]) else Inl OutOfBounds)"

definition Matrix_get :: "Matrix \<Rightarrow> int \<Rightarrow> int \<Rightarrow> fault + real" where
  "Matrix_get m r c = bnd (elem_get m c) (\<lambda>col. elem_get col r)"

text \<open>What fresh storage holds is given by an allocator, one value for each position.\<close>

record allocator =
  fresh_double :: "nat \<Rightarrow> real"
  fresh_int :: "nat \<Rightarrow> int"

definition Vector_Init :: "allocator \<Rightarrow> int \<Rightarrow> fault + Vector" where
  "Vector_Init al n =
     (if n < 0 then Inl BadLength else Inr (map (fresh_double al) [0..<nat n]))"

definition ArrayList_Init :: "allocator \<Rightarrow> int \<Rightarrow> fault + int list" where
  "ArrayList_Init al n =
     (if n < 0 then Inl BadLength else Inr (map (fresh_int al) [0..<nat n]))"

definition Matrix_Init :: "allocator \<Rightarrow> int \<Rightarrow> int \<Rightarrow> fault + Matrix" where
  "Matrix_Init al n_rows n_cols =
     (if n_rows < 0 \<or> n_cols < 0 then Inl BadLength
      else Inr (map (\<lambda>c. map (\<lambda>r. fresh_double al (c * nat n_rows + r)) [0..<nat n_rows])
                  [0..<nat n_cols]))"

definition SetZero :: "Vector \<Rightarrow> Vector" where
  "SetZero v = map (\<lambda>_. 0) v"

subsection \<open>The collaborators\<close>

text \<open>The precomputed tables of \<^verbatim>\<open>SeriesExpansionAux\<close>, the kernel and the kernel
  derivative generator are not among the sources; they are taken as they are handed in,
  one field for each accessor the class calls.\<close>

record SeriesExpansionAux =
  get_dimension :: int
  get_max_order :: int
  get_total_num_coeffs :: "int \<Rightarrow> int"
  get_max_total_num_coeffs :: int
  factorial :: "int \<Rightarrow> real"
  get_multiindex :: "int \<Rightarrow> int list"
  get_inv_multiindex_factorials :: Vector
  get_neg_inv_multiindex_factorials :: Vector
  get_upper_mapping_index :: "int list list"
  get_n_multichoose_k_by_pos :: "int \<Rightarrow> int \<Rightarrow> real"

record Kernel =
  bandwidth_sq :: real

text \<open>Modelled from the spec: \<^verbatim>\<open>ComputeDirectionalDerivatives(x, derivative_map)\<close> of the
  generator fills the matrix it is given. Section 6 has it as
  \<^verbatim>\<open>directional_derivatives(displacement, max_order) -> derivative table\<close>: the table it
  leaves is a function of the displacement and of the shape (rows, columns) of the matrix,
  not of what the matrix held before.\<close>

record KernelDerivative =
  BandwidthFactor :: "real \<Rightarrow> real"
  ComputeDirectionalDerivatives :: "Vector \<Rightarrow> int \<Rightarrow> int \<Rightarrow> Matrix"
  ComputePartialDerivative :: "Matrix \<Rightarrow> int list \<Rightarrow> real"

text \<open>Modelled from the spec: \<^verbatim>\<open>DHrectBound\<close> and \<^verbatim>\<open>DRange\<close> are not among the sources.
  Section 4.4 has the region as an axis-aligned box described by one interval per
  dimension, and takes the widest per-dimension interval width: a box is the list of its
  intervals and the width of an interval is the distance between its ends.\<close>

record DRange =
  lo :: real
  hi :: real

definition width :: "DRange \<Rightarrow> real" where
  "width rng = hi rng - lo rng"

type_synonym DHrectBound = "DRange list"

text \<open>The far-field expansion is a translation source only: the class reads its
  bandwidth, centre, coefficients and order through accessors.\<close>

record FarFieldExpansion =
  ff_bandwidth_sq :: real
  ff_center :: Vector
  ff_coeffs :: Vector
  ff_order :: int

subsection \<open>The class\<close>

text \<open>The members \<^verbatim>\<open>kernel_\<close>, \<^verbatim>\<open>center_\<close>, \<^verbatim>\<open>coeffs_\<close>, \<^verbatim>\<open>order_\<close> and \<^verbatim>\<open>sea_\<close>; a name
  cannot end in an underscore here, so each carries the suffix \<open>m\<close>. The member \<^verbatim>\<open>kd_\<close> is
  never assigned: the generator is passed to each function that calls it.\<close>

record LocalExpansion =
  kernel_m :: Kernel
  center_m :: Vector
  coeffs_m :: Vector
  order_m :: int
  sea_m :: SeriesExpansionAux

subsection \<open>OrderForEvaluating\<close>

text \<open>The \<^verbatim>\<open>do ... while(1)\<close> loop. The state is \<open>p_alpha\<close> and \<open>r_raised_to_p_alpha\<close>.
  The result is the returned \<^verbatim>\<open>int\<close> and the value stored through \<^verbatim>\<open>actual_error\<close>,
  \<open>None\<close> when the call stores nothing.\<close>

function OrderForEvaluating_loop ::
  "SeriesExpansionAux \<Rightarrow> real \<Rightarrow> real \<Rightarrow> int \<Rightarrow> int \<Rightarrow> real \<Rightarrow> int \<Rightarrow> real
     \<Rightarrow> fault + (int \<times> real option)" where
  "OrderForEvaluating_loop sea frontfactor r dimn max_order max_error p_alpha r_raised_to_p_alpha =
     (if p_alpha > max_order then Inr (-1, None)
      else if dimn = 0 then Inl DivisionByZero
      else
        let r_raised = r_raised_to_p_alpha * r;
            floor_fact = factorial sea \<lfloor>real_of_int p_alpha / real_of_int dimn\<rfloor>;
            ceil_fact = factorial sea \<lceil>real_of_int p_alpha / real_of_int dimn\<rceil>
        in if floor_fact < 0 \<or> ceil_fact < 0 then Inr (-1, None)
           else
             let remainder = p_alpha smod dimn;
                 ret = frontfactor *
                   real_of_int (get_total_num_coeffs sea (p_alpha + 1) -
                                get_total_num_coeffs sea p_alpha) * r_raised /
                   sqrt (power_int floor_fact (dimn - remainder) * power_int ceil_fact remainder)
             in if ret > max_error
                then OrderForEvaluating_loop sea frontfactor r dimn max_order max_error
                       (p_alpha + 1) r_raised
                else Inr (p_alpha, Some ret))"
  by pat_completeness auto
termination
  by (relation "measure (\<lambda>(sea, frontfactor, r, dimn, max_order, max_error, p_alpha, rr).
                  nat (max_order + 1 - p_alpha))") auto

definition widest_width_of :: "DHrectBound \<Rightarrow> real" where
  "widest_width_of local_region = fold (\<lambda>rng widest_width. max widest_width (width rng)) local_region 0"

definition OrderForEvaluating ::
  "LocalExpansion \<Rightarrow> DHrectBound \<Rightarrow> real \<Rightarrow> real \<Rightarrow> fault + (int \<times> real option)" where
  "OrderForEvaluating this local_region min_dist_sqd_regions max_error =
     (let frontfactor = exp (- min_dist_sqd_regions / (4 * bandwidth_sq (kernel_m this)));
          dimn = int (length local_region);
          max_order = get_max_order (sea_m this);
          widest_width = widest_width_of local_region;
          two_bandwidth = 2 * sqrt (bandwidth_sq (kernel_m this));
          r = widest_width / two_bandwidth
      in if r \<ge> 1 then Inr (-1, None)
         else OrderForEvaluating_loop (sea_m this) frontfactor r dimn max_order max_error 0 1)"

subsection \<open>Init\<close>

text \<open>\<^verbatim>\<open>kernel_.Init(bandwidth)\<close> belongs to the template parameter \<^verbatim>\<open>TKernel\<close>; it is the
  parameter \<open>Kernel_Init\<close>. The first overload copies the centre it is given, the second
  allocates one of the table's dimension.\<close>

definition Init_with_center ::
  "allocator \<Rightarrow> (real \<Rightarrow> Kernel) \<Rightarrow> real \<Rightarrow> Vector \<Rightarrow> SeriesExpansionAux
     \<Rightarrow> fault + LocalExpansion" where
  "Init_with_center al Kernel_Init bandwidth center sea =
     bnd (Vector_Init al (get_max_total_num_coeffs sea)) (\<lambda>coeffs.
       Inr \<lparr> kernel_m = Kernel_Init bandwidth, center_m = center, coeffs_m = SetZero coeffs,
             order_m = 0, sea_m = sea \<rparr>)"

definition Init_without_center ::
  "allocator \<Rightarrow> (real \<Rightarrow> Kernel) \<Rightarrow> real \<Rightarrow> SeriesExpansionAux \<Rightarrow> fault + LocalExpansion" where
  "Init_without_center al Kernel_Init bandwidth sea =
     bnd (Vector_Init al (get_dimension sea)) (\<lambda>center.
     bnd (Vector_Init al (get_max_total_num_coeffs sea)) (\<lambda>coeffs.
       Inr \<lparr> kernel_m = Kernel_Init bandwidth, center_m = center, coeffs_m = SetZero coeffs,
             order_m = 0, sea_m = sea \<rparr>))"

subsection \<open>EvaluateField\<close>

definition MAXINT :: int where
  "MAXINT = 2147483647"

text \<open>The query point is row \<open>row_num\<close> of \<open>data\<close> when \<open>data\<close> is not null, and \<open>x_q\<close>
  otherwise; a null pointer is \<open>None\<close>.\<close>

definition query_coordinate :: "Matrix option \<Rightarrow> int \<Rightarrow> Vector option \<Rightarrow> int \<Rightarrow> fault + real" where
  "query_coordinate data row_num x_q i =
     (case data of
        None \<Rightarrow> (case x_q of None \<Rightarrow> Inl NullPointer | Some v \<Rightarrow> elem_get v i)
      | Some m \<Rightarrow> Matrix_get m i row_num)"

text \<open>The innermost loop \<^verbatim>\<open>for(j = head; j < tail; j++, t++) tmp[t] = tmp[j] * x_Q_to_x_q[i]\<close>;
  the state is \<open>tmp\<close> and \<open>t\<close>.\<close>

definition EvaluateField_j_body :: "Vector \<Rightarrow> int \<Rightarrow> int \<Rightarrow> Vector \<times> int \<Rightarrow> fault + Vector \<times> int" where
  "EvaluateField_j_body x_Q_to_x_q i j s =
     (case s of (tmp, t) \<Rightarrow>
        bnd (elem_get tmp j) (\<lambda>tmp_j.
        bnd (elem_get x_Q_to_x_q i) (\<lambda>x_i.
        bnd (elem_set tmp t (tmp_j * x_i)) (\<lambda>tmp. Inr (tmp, t + 1)))))"

definition EvaluateField_i_body ::
  "Vector \<Rightarrow> int \<Rightarrow> int \<Rightarrow> int list \<times> Vector \<times> int \<Rightarrow> fault + int list \<times> Vector \<times> int" where
  "EvaluateField_i_body x_Q_to_x_q tail i s =
     (case s of (heads, tmp, t) \<Rightarrow>
        bnd (elem_get heads i) (\<lambda>head.
        bnd (elem_set heads i t) (\<lambda>heads.
        bnd (forM [head..tail - 1] (EvaluateField_j_body x_Q_to_x_q i) (tmp, t)) (\<lambda>(tmp, t).
          Inr (heads, tmp, t)))))"

text \<open>The loop \<^verbatim>\<open>for(k = 1, t = 1, tail = 1; k <= order_; k++, tail = t)\<close>; the state is
  \<open>heads\<close>, \<open>tmp\<close>, \<open>t\<close> and \<open>tail\<close>.\<close>

definition EvaluateField_k_body ::
  "int \<Rightarrow> Vector \<Rightarrow> int \<Rightarrow> int list \<times> Vector \<times> int \<times> int
     \<Rightarrow> fault + int list \<times> Vector \<times> int \<times> int" where
  "EvaluateField_k_body dimn x_Q_to_x_q k s =
     (case s of (heads, tmp, t, tail) \<Rightarrow>
        bnd (forM [0..dimn - 1] (EvaluateField_i_body x_Q_to_x_q tail) (heads, tmp, t))
          (\<lambda>(heads, tmp, t). Inr (heads, tmp, t, t)))"

definition EvaluateField ::
  "allocator \<Rightarrow> KernelDerivative \<Rightarrow> LocalExpansion \<Rightarrow> Matrix option \<Rightarrow> int \<Rightarrow> Vector option
     \<Rightarrow> fault + real" where
  "EvaluateField al kd this data row_num x_q =
     (let total_num_coeffs = get_total_num_coeffs (sea_m this) (order_m this);
          dimn = get_dimension (sea_m this);
          bandwidth_factor = BandwidthFactor kd (bandwidth_sq (kernel_m this))
      in bnd (Vector_Init al dimn) (\<lambda>x_Q_to_x_q.
         bnd (Vector_Init al total_num_coeffs) (\<lambda>tmp.
         bnd (ArrayList_Init al (dimn + 1)) (\<lambda>heads.
         bnd (forM [0..dimn - 1] (\<lambda>i x.
                bnd (query_coordinate data row_num x_q i) (\<lambda>q.
                bnd (elem_get (center_m this) i) (\<lambda>c.
                  elem_set x i ((q - c) / bandwidth_factor)))) x_Q_to_x_q) (\<lambda>x_Q_to_x_q.
         bnd (forM [0..dimn - 1] (\<lambda>i heads. elem_set heads i 0) heads) (\<lambda>heads.
         bnd (elem_set heads dimn MAXINT) (\<lambda>heads.
         bnd (elem_set tmp 0 1) (\<lambda>tmp.
         bnd (forM [1..order_m this] (EvaluateField_k_body dimn x_Q_to_x_q) (heads, tmp, 1, 1))
           (\<lambda>(heads, tmp, t, tail).
         forM [0..total_num_coeffs - 1] (\<lambda>i total.
                bnd (elem_get (coeffs_m this) i) (\<lambda>c.
                bnd (elem_get tmp i) (\<lambda>m. Inr (total + c * m)))) 0)))))))))"

subsection \<open>AccumulateCoeffs\<close>

text \<open>The body of the loop over the reference points. Across iterations the loop carries
  the coefficients and the two scratch vectors \<open>arrtmp\<close> and \<open>x_r_minus_x_Q\<close>.\<close>

definition AccumulateCoeffs_r_body ::
  "KernelDerivative \<Rightarrow> LocalExpansion \<Rightarrow> Matrix \<Rightarrow> Vector \<Rightarrow> int \<Rightarrow> int \<Rightarrow> int \<Rightarrow> real \<Rightarrow> int
     \<Rightarrow> Vector \<times> Vector \<times> Vector \<Rightarrow> fault + Vector \<times> Vector \<times> Vector" where
  "AccumulateCoeffs_r_body kd this data weights order dimn total_num_coeffs bandwidth_factor r s =
     (case s of (coeffs, arrtmp, x_r_minus_x_Q) \<Rightarrow>
        bnd (forM [0..dimn - 1] (\<lambda>d x.
               bnd (elem_get (center_m this) d) (\<lambda>c.
               bnd (Matrix_get data d r) (\<lambda>v.
                 elem_set x d ((c - v) / bandwidth_factor)))) x_r_minus_x_Q) (\<lambda>x_r_minus_x_Q.
        let derivative_map =
              ComputeDirectionalDerivatives kd x_r_minus_x_Q dimn (order + 1)
        in bnd (forM [0..total_num_coeffs - 1] (\<lambda>j arrtmp.
                  let mapping = get_multiindex (sea_m this) j
                  in elem_set arrtmp j (ComputePartialDerivative kd derivative_map mapping))
                arrtmp) (\<lambda>arrtmp.
           bnd (forM [0..total_num_coeffs - 1] (\<lambda>j coeffs.
                  bnd (elem_get coeffs j) (\<lambda>c.
                  bnd (elem_get (get_neg_inv_multiindex_factorials (sea_m this)) j) (\<lambda>f.
                  bnd (elem_get weights r) (\<lambda>w.
                  bnd (elem_get arrtmp j) (\<lambda>a.
                    elem_set coeffs j (c + f * w * a)))))) coeffs) (\<lambda>coeffs.
             Inr (coeffs, arrtmp, x_r_minus_x_Q)))))"

definition AccumulateCoeffs ::
  "allocator \<Rightarrow> KernelDerivative \<Rightarrow> LocalExpansion \<Rightarrow> Matrix \<Rightarrow> Vector \<Rightarrow> int \<Rightarrow> int \<Rightarrow> int
     \<Rightarrow> fault + LocalExpansion" where
  "AccumulateCoeffs al kd this data weights begin_r end_r order =
     (let this = (if order > order_m this then this\<lparr>order_m := order\<rparr> else this);
          dimn = get_dimension (sea_m this);
          total_num_coeffs = get_total_num_coeffs (sea_m this) order
      in bnd (Matrix_Init al dimn (order + 1)) (\<lambda>derivative_map.
         bnd (Vector_Init al total_num_coeffs) (\<lambda>arrtmp.
         bnd (Vector_Init al dimn) (\<lambda>x_r_minus_x_Q.
         let bandwidth_factor = BandwidthFactor kd (bandwidth_sq (kernel_m this))
         in bnd (forM [begin_r..end_r - 1]
                  (AccumulateCoeffs_r_body kd this data weights order dimn total_num_coeffs
                     bandwidth_factor)
                  (coeffs_m this, arrtmp, x_r_minus_x_Q)) (\<lambda>(coeffs, arrtmp, x_r_minus_x_Q).
              Inr (this\<lparr>coeffs_m := coeffs\<rparr>))))))"

subsection \<open>TranslateFromFarField\<close>

text \<open>The loop over \<open>k\<close> inside the loop over \<open>j\<close>: the state is the two accumulators
  \<open>pos_arrtmp\<close> and \<open>neg_arrtmp\<close> and the scratch multi-index \<open>beta_plus_alpha\<close>.\<close>

definition TranslateFromFarField_k_body ::
  "KernelDerivative \<Rightarrow> SeriesExpansionAux \<Rightarrow> Vector \<Rightarrow> Matrix \<Rightarrow> int \<Rightarrow> int \<Rightarrow> int list \<Rightarrow> int
     \<Rightarrow> Vector \<times> Vector \<times> int list \<Rightarrow> fault + Vector \<times> Vector \<times> int list" where
  "TranslateFromFarField_k_body kd sea far_coeffs derivative_map dimension j beta_mapping k s =
     (case s of (pos_arrtmp, neg_arrtmp, beta_plus_alpha) \<Rightarrow>
        let alpha_mapping = get_multiindex sea k
        in bnd (forM [0..dimension - 1] (\<lambda>d bpa.
                  bnd (elem_get beta_mapping d) (\<lambda>b.
                  bnd (elem_get alpha_mapping d) (\<lambda>a.
                    elem_set bpa d (b + a)))) beta_plus_alpha) (\<lambda>beta_plus_alpha.
           let derivative_factor = ComputePartialDerivative kd derivative_map beta_plus_alpha
           in bnd (elem_get far_coeffs k) (\<lambda>far_coeff.
              let prd = far_coeff * derivative_factor
              in if prd > 0
                 then bnd (elem_get pos_arrtmp j) (\<lambda>p.
                      bnd (elem_set pos_arrtmp j (p + prd)) (\<lambda>pos_arrtmp.
                        Inr (pos_arrtmp, neg_arrtmp, beta_plus_alpha)))
                 else bnd (elem_get neg_arrtmp j) (\<lambda>n.
                      bnd (elem_set neg_arrtmp j (n + prd)) (\<lambda>neg_arrtmp.
                        Inr (pos_arrtmp, neg_arrtmp, beta_plus_alpha))))))"

definition TranslateFromFarField_j_body ::
  "KernelDerivative \<Rightarrow> SeriesExpansionAux \<Rightarrow> Vector \<Rightarrow> Matrix \<Rightarrow> int \<Rightarrow> int \<Rightarrow> int
     \<Rightarrow> Vector \<times> Vector \<times> int list \<Rightarrow> fault + Vector \<times> Vector \<times> int list" where
  "TranslateFromFarField_j_body kd sea far_coeffs derivative_map dimension total_num_coeffs j s =
     (case s of (pos_arrtmp, neg_arrtmp, beta_plus_alpha) \<Rightarrow>
        let beta_mapping = get_multiindex sea j
        in bnd (elem_set neg_arrtmp j 0) (\<lambda>neg_arrtmp.
           bnd (elem_set pos_arrtmp j 0) (\<lambda>pos_arrtmp.
             forM [0..total_num_coeffs - 1]
               (TranslateFromFarField_k_body kd sea far_coeffs derivative_map dimension j
                  beta_mapping)
               (pos_arrtmp, neg_arrtmp, beta_plus_alpha))))"

definition TranslateFromFarField ::
  "allocator \<Rightarrow> KernelDerivative \<Rightarrow> LocalExpansion \<Rightarrow> FarFieldExpansion \<Rightarrow> fault + LocalExpansion" where
  "TranslateFromFarField al kd this se =
     (let dimension = get_dimension (sea_m this);
          far_order = ff_order se;
          total_num_coeffs = get_total_num_coeffs (sea_m this) far_order;
          bandwidth_factor = BandwidthFactor kd (ff_bandwidth_sq se);
          far_center = ff_center se;
          far_coeffs = ff_coeffs se
      in bnd (Vector_Init al dimension) (\<lambda>cent_diff.
         let this = (if far_order > order_m this then this\<lparr>order_m := far_order\<rparr> else this);
             limit = 2 * order_m this + 1
         in bnd (Matrix_Init al dimension limit) (\<lambda>derivative_map.
            bnd (Vector_Init al total_num_coeffs) (\<lambda>pos_arrtmp.
            bnd (Vector_Init al total_num_coeffs) (\<lambda>neg_arrtmp.
            bnd (forM [0..dimension - 1] (\<lambda>j cd.
                   bnd (elem_get (center_m this) j) (\<lambda>c.
                   bnd (elem_get far_center j) (\<lambda>f.
                     elem_set cd j ((c - f) / bandwidth_factor)))) cent_diff) (\<lambda>cent_diff.
            let derivative_map = ComputeDirectionalDerivatives kd cent_diff dimension limit
            in bnd (ArrayList_Init al dimension) (\<lambda>beta_plus_alpha.
               bnd (forM [0..total_num_coeffs - 1]
                      (TranslateFromFarField_j_body kd (sea_m this) far_coeffs derivative_map
                         dimension total_num_coeffs)
                      (pos_arrtmp, neg_arrtmp, beta_plus_alpha))
                 (\<lambda>(pos_arrtmp, neg_arrtmp, beta_plus_alpha).
               let C_k_neg = get_neg_inv_multiindex_factorials (sea_m this)
               in bnd (forM [0..total_num_coeffs - 1] (\<lambda>j coeffs.
                         bnd (elem_get coeffs j) (\<lambda>c.
                         bnd (elem_get pos_arrtmp j) (\<lambda>p.
                         bnd (elem_get neg_arrtmp j) (\<lambda>n.
                         bnd (elem_get C_k_neg j) (\<lambda>f.
                           elem_set coeffs j (c + (p + n) * f)))))) (coeffs_m this)) (\<lambda>coeffs.
                    Inr (this\<lparr>coeffs_m := coeffs\<rparr>))))))))))"

subsection \<open>TranslateToLocal\<close>

text \<open>\<^verbatim>\<open>TranslateToLocal\<close> reads \<^verbatim>\<open>this\<close> and writes the expansion \<^verbatim>\<open>se\<close> it is passed by
  reference, and nothing keeps the two from being the same object. The expansions live in a
  store, the two arguments are addresses, and every read and write goes through the store.\<close>

type_synonym store = "nat \<Rightarrow> LocalExpansion"

text \<open>The loop over \<open>l\<close> that fills \<open>tmp_storage\<close> with \<open>beta - alpha\<close> and leaves by
  \<^verbatim>\<open>break\<close>, with \<open>flag\<close> set, at the first negative component.\<close>

fun TranslateToLocal_l_loop ::
  "int list \<Rightarrow> int list \<Rightarrow> int list \<Rightarrow> int list \<Rightarrow> fault + bool \<times> int list" where
  "TranslateToLocal_l_loop [] beta_mapping alpha_mapping tmp_storage = Inr (False, tmp_storage)"
| "TranslateToLocal_l_loop (l # ls) beta_mapping alpha_mapping tmp_storage =
     bnd (elem_get beta_mapping l) (\<lambda>b.
     bnd (elem_get alpha_mapping l) (\<lambda>a.
     bnd (elem_set tmp_storage l (b - a)) (\<lambda>tmp_storage.
       if b - a < 0 then Inr (True, tmp_storage)
       else TranslateToLocal_l_loop ls beta_mapping alpha_mapping tmp_storage)))"

text \<open>The loop over \<open>k\<close>, which runs through the upper mappings of \<open>alpha\<close> and leaves by
  \<^verbatim>\<open>break\<close> at the first one that is not below \<open>total_num_coeffs\<close>. The state is
  \<open>pos_coeffs\<close>, \<open>neg_coeffs\<close> and \<open>tmp_storage\<close>.\<close>

fun TranslateToLocal_k_loop ::
  "SeriesExpansionAux \<Rightarrow> Vector \<Rightarrow> Vector \<Rightarrow> int \<Rightarrow> int \<Rightarrow> int \<Rightarrow> int list \<Rightarrow> int list
     \<Rightarrow> real \<times> real \<times> int list \<Rightarrow> fault + real \<times> real \<times> int list" where
  "TranslateToLocal_k_loop sea coeffs center_diff dimn total_num_coeffs j alpha_mapping [] s = Inr s"
| "TranslateToLocal_k_loop sea coeffs center_diff dimn total_num_coeffs j alpha_mapping (u # us) s =
     (case s of (pos_coeffs, neg_coeffs, tmp_storage) \<Rightarrow>
        if u \<ge> total_num_coeffs then Inr s
        else
          let beta_mapping = get_multiindex sea u
          in bnd (TranslateToLocal_l_loop [0..dimn - 1] beta_mapping alpha_mapping tmp_storage)
               (\<lambda>(flag, tmp_storage).
                  if flag
                  then TranslateToLocal_k_loop sea coeffs center_diff dimn total_num_coeffs j
                         alpha_mapping us (pos_coeffs, neg_coeffs, tmp_storage)
                  else
                    bnd (forM [0..dimn - 1] (\<lambda>l diff1.
                           bnd (elem_get center_diff l) (\<lambda>c.
                           bnd (elem_get tmp_storage l) (\<lambda>e.
                             Inr (diff1 * power_int c e)))) 1) (\<lambda>diff1.
                    bnd (elem_get coeffs u) (\<lambda>coeff.
                    let prd = coeff * diff1 * get_n_multichoose_k_by_pos sea u j
                    in TranslateToLocal_k_loop sea coeffs center_diff dimn total_num_coeffs j
                         alpha_mapping us
                         (if prd > 0 then (pos_coeffs + prd, neg_coeffs, tmp_storage)
                          else (pos_coeffs, neg_coeffs + prd, tmp_storage))))))"

definition TranslateToLocal_j_body ::
  "nat \<Rightarrow> nat \<Rightarrow> Vector \<Rightarrow> int \<Rightarrow> int \<Rightarrow> int \<Rightarrow> store \<times> int list \<Rightarrow> fault + store \<times> int list" where
  "TranslateToLocal_j_body this se center_diff dimn total_num_coeffs j s =
     (case s of (st, tmp_storage) \<Rightarrow>
        let alpha_mapping = get_multiindex (sea_m (st this)) j
        in bnd (elem_get (get_upper_mapping_index (sea_m (st this))) j)
             (\<lambda>upper_mappings_for_alpha.
           bnd (TranslateToLocal_k_loop (sea_m (st this)) (coeffs_m (st this)) center_diff dimn
                  total_num_coeffs j alpha_mapping upper_mappings_for_alpha (0, 0, tmp_storage))
             (\<lambda>(pos_coeffs, neg_coeffs, tmp_storage).
           bnd (elem_get (coeffs_m (st se)) j) (\<lambda>c.
           bnd (elem_set (coeffs_m (st se)) j (c + (pos_coeffs + neg_coeffs))) (\<lambda>new_coeffs.
             Inr (st(se := (st se)\<lparr>coeffs_m := new_coeffs\<rparr>), tmp_storage))))))"

definition TranslateToLocal ::
  "allocator \<Rightarrow> KernelDerivative \<Rightarrow> nat \<Rightarrow> nat \<Rightarrow> store \<Rightarrow> fault + store" where
  "TranslateToLocal al kd this se st =
     (let new_center = center_m (st se);
          prev_order = order_m (st se);
          total_num_coeffs = get_total_num_coeffs (sea_m (st this)) (order_m (st this));
          dimn = get_dimension (sea_m (st this))
      in bnd (ArrayList_Init al dimn) (\<lambda>tmp_storage.
         let bandwidth_factor = BandwidthFactor kd (bandwidth_sq (kernel_m (st this)))
         in bnd (Vector_Init al dimn) (\<lambda>center_diff.
            bnd (forM [0..dimn - 1] (\<lambda>d cd.
                   bnd (elem_get new_center d) (\<lambda>n.
                   bnd (elem_get (center_m (st this)) d) (\<lambda>c.
                     elem_set cd d ((n - c) / bandwidth_factor)))) center_diff) (\<lambda>center_diff.
            let st = (if prev_order < order_m (st this)
                      then st(se := (st se)\<lparr>order_m := order_m (st this)\<rparr>) else st)
            in bnd (forM [0..total_num_coeffs - 1]
                      (TranslateToLocal_j_body this se center_diff dimn total_num_coeffs)
                      (st, tmp_storage)) (\<lambda>(st, tmp_storage). Inr st)))))"

subsection \<open>Calls on a store\<close>

text \<open>A driver holds its expansions in the store and calls the three mutators on them in
  any order.\<close>

datatype call =
    Accumulate nat Matrix Vector int int int
  | FromFarField nat FarFieldExpansion
  | ToLocal nat nat

fun exec :: "allocator \<Rightarrow> KernelDerivative \<Rightarrow> call \<Rightarrow> store \<Rightarrow> fault + store" where
  "exec al kd (Accumulate a data weights begin_r end_r order) st =
     bnd (AccumulateCoeffs al kd (st a) data weights begin_r end_r order) (\<lambda>e. Inr (st(a := e)))"
| "exec al kd (FromFarField a se) st =
     bnd (TranslateFromFarField al kd (st a) se) (\<lambda>e. Inr (st(a := e)))"
| "exec al kd (ToLocal this se) st = TranslateToLocal al kd this se st"

fun run :: "allocator \<Rightarrow> KernelDerivative \<Rightarrow> call list \<Rightarrow> store \<Rightarrow> fault + store" where
  "run al kd [] st = Inr st"
| "run al kd (c # cs) st = bnd (exec al kd c st) (run al kd cs)"

subsection \<open>Order selection, as the specification words it\<close>

text \<open>The test on the two factorial lookups at candidate order \<open>p\<close>: the table answers a
  negative number for an argument it does not hold.\<close>

definition fact_invalid :: "SeriesExpansionAux \<Rightarrow> int \<Rightarrow> int \<Rightarrow> bool" where
  "fact_invalid sea dimn p =
     (factorial sea \<lfloor>real_of_int p / real_of_int dimn\<rfloor> < 0 \<or>
      factorial sea \<lceil>real_of_int p / real_of_int dimn\<rceil> < 0)"

text \<open>The bound term of candidate order \<open>p\<close> in closed form: the running power of the
  loop has been multiplied by \<open>r\<close> once more than \<open>p\<close> times when the term is formed.\<close>

definition bound_term :: "SeriesExpansionAux \<Rightarrow> real \<Rightarrow> real \<Rightarrow> int \<Rightarrow> int \<Rightarrow> real" where
  "bound_term sea frontfactor r dimn p =
     frontfactor *
       real_of_int (get_total_num_coeffs sea (p + 1) - get_total_num_coeffs sea p) *
       r ^ nat (p + 1) /
       sqrt (power_int (factorial sea \<lfloor>real_of_int p / real_of_int dimn\<rfloor>) (dimn - p smod dimn) *
             power_int (factorial sea \<lceil>real_of_int p / real_of_int dimn\<rceil>) (p smod dimn))"

text \<open>The search started at \<open>p\<close> gets as far as \<open>p'\<close>: every candidate in between had
  valid factorials and a bound term above the error budget.\<close>

definition reaches :: "SeriesExpansionAux \<Rightarrow> real \<Rightarrow> real \<Rightarrow> int \<Rightarrow> real \<Rightarrow> int \<Rightarrow> int \<Rightarrow> bool" where
  "reaches sea frontfactor r dimn max_error p p' =
     (\<forall>q\<in>{p..<p'}. \<not> fact_invalid sea dimn q \<and> bound_term sea frontfactor r dimn q > max_error)"

text \<open>The same notions for a call of \<^verbatim>\<open>OrderForEvaluating\<close>: the ratio \<open>r\<close> of the widest
  width to twice the bandwidth, the front factor, the bound term of a candidate order, and
  the three reasons for which the specification lets the call fail.\<close>

definition width_ratio :: "LocalExpansion \<Rightarrow> DHrectBound \<Rightarrow> real" where
  "width_ratio this local_region =
     widest_width_of local_region / (2 * sqrt (bandwidth_sq (kernel_m this)))"

definition front_factor :: "LocalExpansion \<Rightarrow> real \<Rightarrow> real" where
  "front_factor this min_dist_sqd_regions =
     exp (- min_dist_sqd_regions / (4 * bandwidth_sq (kernel_m this)))"

definition order_bound :: "LocalExpansion \<Rightarrow> DHrectBound \<Rightarrow> real \<Rightarrow> int \<Rightarrow> real" where
  "order_bound this local_region min_dist_sqd_regions p =
     bound_term (sea_m this) (front_factor this min_dist_sqd_regions)
       (width_ratio this local_region) (int (length local_region)) p"

definition order_invalid :: "LocalExpansion \<Rightarrow> DHrectBound \<Rightarrow> int \<Rightarrow> bool" where
  "order_invalid this local_region p = fact_invalid (sea_m this) (int (length local_region)) p"

definition search_reaches :: "LocalExpansion \<Rightarrow> DHrectBound \<Rightarrow> real \<Rightarrow> real \<Rightarrow> int \<Rightarrow> bool" where
  "search_reaches this local_region min_dist_sqd_regions max_error p =
     (\<forall>q\<in>{0..<p}. \<not> order_invalid this local_region q \<and>
                  order_bound this local_region min_dist_sqd_regions q > max_error)"

definition region_too_wide :: "LocalExpansion \<Rightarrow> DHrectBound \<Rightarrow> bool" where
  "region_too_wide this local_region = (width_ratio this local_region \<ge> 1)"

definition search_passes_max_order ::
  "LocalExpansion \<Rightarrow> DHrectBound \<Rightarrow> real \<Rightarrow> real \<Rightarrow> bool" where
  "search_passes_max_order this local_region min_dist_sqd_regions max_error =
     search_reaches this local_region min_dist_sqd_regions max_error
       (max 0 (get_max_order (sea_m this) + 1))"

definition factorial_lookup_fails ::
  "LocalExpansion \<Rightarrow> DHrectBound \<Rightarrow> real \<Rightarrow> real \<Rightarrow> bool" where
  "factorial_lookup_fails this local_region min_dist_sqd_regions max_error =
     (\<exists>p\<in>{0..get_max_order (sea_m this)}.
        search_reaches this local_region min_dist_sqd_regions max_error p \<and>
        order_invalid this local_region p)"

subsection \<open>A small instance\<close>

text \<open>Tables for dimension one and orders up to two: the multi-index at position \<open>j\<close> is
  \<open>[j]\<close>, there are \<open>order + 1\<close> coefficients up to an order, and the normalisation
  constants are the inverse factorials, with alternating sign for the negated ones.\<close>

definition ex_sea :: SeriesExpansionAux where
  "ex_sea = \<lparr> get_dimension = 1, get_max_order = 2,
     get_total_num_coeffs = (\<lambda>order. order + 1),
     get_max_total_num_coeffs = 3,
     factorial = (\<lambda>k. if k < 0 then - 1 else fact (nat k)),
     get_multiindex = (\<lambda>pos. [pos]),
     get_inv_multiindex_factorials = [1, 1, 1 / 2],
     get_neg_inv_multiindex_factorials = [1, - 1, 1 / 2],
     get_upper_mapping_index = [[0, 1, 2], [1, 2], [2]],
     get_n_multichoose_k_by_pos = (\<lambda>n k. real (nat n choose nat k)) \<rparr>"

definition ex_local :: LocalExpansion where
  "ex_local = \<lparr> kernel_m = \<lparr> bandwidth_sq = 1 \<rparr>, center_m = [0], coeffs_m = [0, 0, 0],
     order_m = 0, sea_m = ex_sea \<rparr>"

definition ex_region :: DHrectBound where
  "ex_region = [\<lparr> lo = 0, hi = 1 \<rparr>]"

text \<open>An allocator whose fresh storage holds ones, and the initialisation of a kernel that
  keeps the square of its bandwidth.\<close>

definition ex_alloc :: allocator where
  "ex_alloc = \<lparr> fresh_double = (\<lambda>_. 1), fresh_int = (\<lambda>_. 7) \<rparr>"

definition ex_Kernel_Init :: "real \<Rightarrow> Kernel" where
  "ex_Kernel_Init bandwidth = \<lparr> bandwidth_sq = bandwidth * bandwidth \<rparr>"

text \<open>A derivative generator with rational values: the table holds the powers of the
  displacement, one column for each order, and the partial derivative of a multi-index
  is the product of the entries it selects.\<close>

definition ex_kd :: KernelDerivative where
  "ex_kd = \<lparr> BandwidthFactor = (\<lambda>bandwidth_sq. 2 * bandwidth_sq),
     ComputeDirectionalDerivatives = (\<lambda>x n_rows n_cols.
        map (\<lambda>c. map (\<lambda>r. (x ! r) ^ c) [0..<nat n_rows]) [0..<nat n_cols]),
     ComputePartialDerivative = (\<lambda>derivative_map mapping.
        prod_list (map (\<lambda>(d, m). derivative_map ! nat m ! d) (zip [0..<length mapping] mapping))) \<rparr>"

text \<open>An expansion of order 0 whose first coefficient is 5.\<close>

definition ex_constant :: LocalExpansion where
  "ex_constant = ex_local\<lparr>coeffs_m := [5, 0, 0]\<rparr>"

text \<open>Two reference points with unit weights, a far-field expansion of order 1, a store
  whose expansions are all the fresh expansion above, and a sequence of three calls.\<close>

definition ex_data :: Matrix where
  "ex_data = [[1], [2]]"

definition ex_weights :: Vector where
  "ex_weights = [1, 3]"

definition ex_far :: FarFieldExpansion where
  "ex_far = \<lparr> ff_bandwidth_sq = 1, ff_center = [2], ff_coeffs = [1, 2, 0], ff_order = 1 \<rparr>"

definition ex_store :: store where
  "ex_store = (\<lambda>a. ex_local)"

definition ex_calls :: "call list" where
  "ex_calls = [Accumulate 0 ex_data ex_weights 0 2 1, ToLocal 0 1, FromFarField 1 ex_far]"

subsection \<open>Accumulation in closed form\<close>

text \<open>The difference of two points, coordinate by coordinate up to the dimension, divided by
  the bandwidth factor.\<close>

definition scaled_difference :: "Vector \<Rightarrow> Vector \<Rightarrow> real \<Rightarrow> int \<Rightarrow> Vector" where
  "scaled_difference a b bandwidth_factor dimn =
     map (\<lambda>d. (a ! d - b ! d) / bandwidth_factor) [0..<nat dimn]"

text \<open>What one reference point \<open>x_r\<close> of weight \<open>w\<close> adds to the coefficient at position
  \<open>j\<close>: the negated inverse factorial of the multi-index, times the weight, times the partial
  derivative at the scaled difference of the centre and the point.\<close>

definition point_term :: "KernelDerivative \<Rightarrow> LocalExpansion \<Rightarrow> int \<Rightarrow> Vector \<times> real \<Rightarrow> nat \<Rightarrow> real" where
  "point_term kd this order p j =
     (case p of (x_r, w) \<Rightarrow>
        get_neg_inv_multiindex_factorials (sea_m this) ! j * w *
        ComputePartialDerivative kd
          (ComputeDirectionalDerivatives kd
             (scaled_difference (center_m this) x_r
                (BandwidthFactor kd (bandwidth_sq (kernel_m this))) (get_dimension (sea_m this)))
             (get_dimension (sea_m this)) (order + 1))
          (get_multiindex (sea_m this) (int j)))"

text \<open>The weighted points a call selects: the columns \<open>begin \<le> r < end\<close> of the data, each
  with its weight.\<close>

definition selected_points :: "Matrix \<Rightarrow> Vector \<Rightarrow> int \<Rightarrow> int \<Rightarrow> (Vector \<times> real) list" where
  "selected_points data weights begin_r end_r =
     map (\<lambda>r. (data ! nat r, weights ! nat r)) [begin_r..end_r - 1]"

text \<open>A driver that accumulates several batches, each a data matrix, its weights and a range,
  into one expansion with the same requested order, one call after the other.\<close>

fun AccumulateCoeffs_batches ::
  "allocator \<Rightarrow> KernelDerivative \<Rightarrow> (Matrix \<times> Vector \<times> int \<times> int) list \<Rightarrow> int
     \<Rightarrow> LocalExpansion \<Rightarrow> fault + LocalExpansion" where
  "AccumulateCoeffs_batches al kd [] order this = Inr this"
| "AccumulateCoeffs_batches al kd ((data, weights, begin_r, end_r) # bs) order this =
     bnd (AccumulateCoeffs al kd this data weights begin_r end_r order)
       (AccumulateCoeffs_batches al kd bs order)"

text \<open>The weighted points of all the batches, in the order in which they are processed.\<close>

definition batch_points :: "(Matrix \<times> Vector \<times> int \<times> int) list \<Rightarrow> (Vector \<times> real) list" where
  "batch_points bs =
     concat (map (\<lambda>(data, weights, begin_r, end_r). selected_points data weights begin_r end_r) bs)"

text \<open>The sum that a list of weighted points adds to the coefficient at position \<open>j\<close>;
  positions at or beyond the coefficient count of the requested order receive nothing.\<close>

definition points_sum :: "KernelDerivative \<Rightarrow> LocalExpansion \<Rightarrow> int \<Rightarrow> (Vector \<times> real) list \<Rightarrow> nat \<Rightarrow> real" where
  "points_sum kd this order ps j =
     (if int j < get_total_num_coeffs (sea_m this) order
      then sum_list (map (\<lambda>p. point_term kd this order p j) ps) else 0)"

text \<open>The two reference points of the instance in the other order, with their weights.\<close>

definition ex_data_rev :: Matrix where
  "ex_data_rev = [[2], [1]]"

definition ex_weights_rev :: Vector where
  "ex_weights_rev = [3, 1]"

subsection \<open>Translation in closed form\<close>

text \<open>The component-wise sum of two multi-indices, up to the dimension.\<close>

definition multiindex_sum :: "int \<Rightarrow> int list \<Rightarrow> int list \<Rightarrow> int list" where
  "multiindex_sum dimension beta_mapping alpha_mapping =
     map (\<lambda>d. beta_mapping ! d + alpha_mapping ! d) [0..<nat dimension]"

text \<open>The product the inner loop of \<^verbatim>\<open>TranslateFromFarField\<close> forms for destination position
  \<open>j\<close> and source position \<open>k\<close>: the source coefficient times the partial derivative indexed
  by the sum of the two multi-indices.\<close>

definition far_field_product ::
  "KernelDerivative \<Rightarrow> SeriesExpansionAux \<Rightarrow> Vector \<Rightarrow> Matrix \<Rightarrow> int \<Rightarrow> int \<Rightarrow> int \<Rightarrow> real" where
  "far_field_product kd sea far_coeffs derivative_map dimension j k =
     far_coeffs ! nat k *
     ComputePartialDerivative kd derivative_map
       (multiindex_sum dimension (get_multiindex sea j) (get_multiindex sea k))"

text \<open>The sum of these products over every source position below the coefficient count.\<close>

definition far_field_sum ::
  "KernelDerivative \<Rightarrow> SeriesExpansionAux \<Rightarrow> Vector \<Rightarrow> Matrix \<Rightarrow> int \<Rightarrow> int \<Rightarrow> int \<Rightarrow> real" where
  "far_field_sum kd sea far_coeffs derivative_map dimension total_num_coeffs j =
     sum_list (map (far_field_product kd sea far_coeffs derivative_map dimension j)
                 [0..total_num_coeffs - 1])"

text \<open>What \<^verbatim>\<open>TranslateFromFarField\<close> adds to the destination coefficient at position \<open>j\<close>: the
  derivative table is generated at the scaled difference of the two centres with
  \<open>2 * order + 1\<close> columns, for the destination order after it has been raised, and the sum
  is normalised by the negated inverse factorial of the destination multi-index.\<close>

definition far_field_term :: "KernelDerivative \<Rightarrow> LocalExpansion \<Rightarrow> FarFieldExpansion \<Rightarrow> nat \<Rightarrow> real" where
  "far_field_term kd this se j =
     (let dimension = get_dimension (sea_m this);
          total_num_coeffs = get_total_num_coeffs (sea_m this) (ff_order se);
          limit = 2 * max (order_m this) (ff_order se) + 1;
          cent_diff = scaled_difference (center_m this) (ff_center se)
                        (BandwidthFactor kd (ff_bandwidth_sq se)) dimension;
          derivative_map = ComputeDirectionalDerivatives kd cent_diff dimension limit
      in far_field_sum kd (sea_m this) (ff_coeffs se) derivative_map dimension total_num_coeffs
           (int j) *
         get_neg_inv_multiindex_factorials (sea_m this) ! j)"

text \<open>A destination of order 1 with zero coefficients and a far-field source of order 0.\<close>

definition ex_order1 :: LocalExpansion where
  "ex_order1 = ex_local\<lparr>order_m := 1\<rparr>"

definition ex_far0 :: FarFieldExpansion where
  "ex_far0 = \<lparr> ff_bandwidth_sq = 1, ff_center = [2], ff_coeffs = [1, 0, 0], ff_order = 0 \<rparr>"

text \<open>The multi-index \<open>alpha\<close> is below \<open>beta\<close> in every component: no exponent difference
  is negative.\<close>

definition multiindex_below :: "int \<Rightarrow> int list \<Rightarrow> int list \<Rightarrow> bool" where
  "multiindex_below dimn alpha_mapping beta_mapping =
     list_all (\<lambda>d. alpha_mapping ! d \<le> beta_mapping ! d) [0..<nat dimn]"

text \<open>The product over the dimensions of the centre difference raised to the exponent
  differences.\<close>

definition shift_power :: "int \<Rightarrow> Vector \<Rightarrow> int list \<Rightarrow> int list \<Rightarrow> real" where
  "shift_power dimn center_diff beta_mapping alpha_mapping =
     prod_list (map (\<lambda>d. power_int (center_diff ! d) (beta_mapping ! d - alpha_mapping ! d))
                  [0..<nat dimn])"

text \<open>The products the loop over the upper mappings forms for destination position \<open>j\<close>: it
  stops at the first upper mapping that is not below the coefficient count and skips those
  with a negative exponent difference.\<close>

fun local_products ::
  "SeriesExpansionAux \<Rightarrow> Vector \<Rightarrow> Vector \<Rightarrow> int \<Rightarrow> int \<Rightarrow> int \<Rightarrow> int list \<Rightarrow> real list" where
  "local_products sea coeffs center_diff dimn total_num_coeffs j [] = []"
| "local_products sea coeffs center_diff dimn total_num_coeffs j (u # us) =
     (if u \<ge> total_num_coeffs then []
      else if multiindex_below dimn (get_multiindex sea j) (get_multiindex sea u)
      then (coeffs ! nat u *
            shift_power dimn center_diff (get_multiindex sea u) (get_multiindex sea j) *
            get_n_multichoose_k_by_pos sea u j)
           # local_products sea coeffs center_diff dimn total_num_coeffs j us
      else local_products sea coeffs center_diff dimn total_num_coeffs j us)"

text \<open>What \<^verbatim>\<open>TranslateToLocal\<close> adds to the coefficient at position \<open>j\<close> of the expansion
  centred at \<open>new_center\<close>, from the expansion \<open>this\<close> it is called on.\<close>

definition local_to_local_term :: "KernelDerivative \<Rightarrow> LocalExpansion \<Rightarrow> Vector \<Rightarrow> nat \<Rightarrow> real" where
  "local_to_local_term kd this new_center j =
     (let dimn = get_dimension (sea_m this);
          total_num_coeffs = get_total_num_coeffs (sea_m this) (order_m this);
          center_diff = scaled_difference new_center (center_m this)
                          (BandwidthFactor kd (bandwidth_sq (kernel_m this))) dimn
      in sum_list (local_products (sea_m this) (coeffs_m this) center_diff dimn total_num_coeffs
                     (int j) (get_upper_mapping_index (sea_m this) ! j)))"

text \<open>The contribution of a translation to position \<open>j\<close> of the destination buffer: the
  term above below the coefficient count the loops run to, and nothing from there on.\<close>

definition far_field_contribution ::
  "KernelDerivative \<Rightarrow> LocalExpansion \<Rightarrow> FarFieldExpansion \<Rightarrow> nat \<Rightarrow> real" where
  "far_field_contribution kd this se j =
     (if int j < get_total_num_coeffs (sea_m this) (ff_order se)
      then far_field_term kd this se j else 0)"

definition local_contribution :: "KernelDerivative \<Rightarrow> LocalExpansion \<Rightarrow> Vector \<Rightarrow> nat \<Rightarrow> real" where
  "local_contribution kd this new_center j =
     (if int j < get_total_num_coeffs (sea_m this) (order_m this)
      then local_to_local_term kd this new_center j else 0)"

text \<open>The order and the coefficient buffer of an expansion, for stating results.\<close>

definition order_and_coeffs :: "LocalExpansion \<Rightarrow> int \<times> Vector" where
  "order_and_coeffs e = (order_m e, coeffs_m e)"

text \<open>A source of order 1 centred at 0 and a destination centred at 2, at the addresses 0
  and 1 of a store.\<close>

definition ex_source :: LocalExpansion where
  "ex_source = ex_local\<lparr>coeffs_m := [2, 3 / 2, 0], order_m := 1\<rparr>"

definition ex_target :: LocalExpansion where
  "ex_target = ex_local\<lparr>center_m := [2], coeffs_m := [1, 1, 1]\<rparr>"

definition ex_pair :: store where
  "ex_pair = (\<lambda>a. if a = 0 then ex_source else ex_target)"

section \<open>Properties\<close>

subsection \<open>Faults and loops\<close>


lemma bnd_Inr [simp]: "bnd (Inr x) f = f x"
  by (simp add: bnd_def)

lemma bnd_Inl [simp]: "bnd (Inl e) f = Inl e"
  by (simp add: bnd_def)

lemma bnd_eq_Inr: "bnd m f = Inr y \<longleftrightarrow> (\<exists>x. m = Inr x \<and> f x = Inr y)"
  by (cases m) simp_all

lemma forM_append: "forM (xs @ ys) body s = bnd (forM xs body s) (forM ys body)"
proof (induction xs arbitrary: s)
  case Nil
  show ?case by simp
next
  case (Cons x xs)
  show ?case
  proof (cases "body x s")
    case (Inl e) then show ?thesis by simp
  next
    case (Inr s1) with Cons show ?thesis by simp
  qed
qed

lemma forM_preserves:
  assumes "forM xs body s = Inr s'" and "P s"
    and "\<And>i s s'. i \<in> set xs \<Longrightarrow> P s \<Longrightarrow> body i s = Inr s' \<Longrightarrow> P s'"
  shows "P s'"
  using assms
proof (induction xs arbitrary: s)
  case Nil
  then show ?case by simp
next
  case (Cons x xs)
  from Cons.prems(1) obtain s1 where s1: "body x s = Inr s1" "forM xs body s1 = Inr s'"
    by (auto simp: bnd_eq_Inr)
  have "P s1" using Cons.prems(3) [of x s s1] Cons.prems(2) s1(1) by simp
  moreover have "\<And>i s s'. i \<in> set xs \<Longrightarrow> P s \<Longrightarrow> body i s = Inr s' \<Longrightarrow> P s'"
    using Cons.prems(3) by (meson list.set_intros(2))
  ultimately show ?case using Cons.IH [OF s1(2)] by blast
qed

lemma forM_succeeds:
  assumes "P s"
    and "\<And>i s. i \<in> set xs \<Longrightarrow> P s \<Longrightarrow> \<exists>s'. body i s = Inr s' \<and> P s'"
  shows "\<exists>s'. forM xs body s = Inr s' \<and> P s'"
  using assms
proof (induction xs arbitrary: s)
  case Nil
  then show ?case by simp
next
  case (Cons x xs)
  from Cons.prems obtain s1 where s1: "body x s = Inr s1" "P s1"
    by (meson list.set_intros(1))
  from Cons.IH [OF s1(2)] Cons.prems(2) obtain s' where "forM xs body s1 = Inr s'" "P s'"
    by (meson list.set_intros(2))
  with s1 show ?case by simp
qed

lemma forM_upto_indexed:
  assumes "forM [a..b] body s = Inr s'" and "I a s"
    and "\<And>i s s'. a \<le> i \<Longrightarrow> i \<le> b \<Longrightarrow> I i s \<Longrightarrow> body i s = Inr s' \<Longrightarrow> I (i + 1) s'"
  shows "I (max a (b + 1)) s'"
  using assms
proof (induction "nat (b + 1 - a)" arbitrary: a s)
  case 0
  then have "[a..b] = []" "max a (b + 1) = a" by simp_all
  with 0 show ?case by simp
next
  case (Suc n)
  then have le: "a \<le> b" by simp
  then have up: "[a..b] = a # [a + 1..b]" by (simp add: upto_rec1)
  from Suc.prems(1) obtain s1 where s1: "body a s = Inr s1" "forM [a + 1..b] body s1 = Inr s'"
    by (auto simp: up bnd_eq_Inr)
  have i1: "I (a + 1) s1" using Suc.prems(3) [of a s s1] Suc.prems(2) le s1(1) by simp
  have n: "n = nat (b + 1 - (a + 1))" using Suc(2) by simp
  have "\<And>i s s'. a + 1 \<le> i \<Longrightarrow> i \<le> b \<Longrightarrow> I i s \<Longrightarrow> body i s = Inr s' \<Longrightarrow> I (i + 1) s'"
    using Suc.prems(3) by simp
  then have "I (max (a + 1) (b + 1)) s'"
    using Suc(1) [OF n s1(2) i1] by blast
  with le show ?case by (simp add: max_def)
qed

lemma set_upto_less: "i \<in> set [0..n - 1] \<longleftrightarrow> 0 \<le> i \<and> i < n"
  by auto

lemma elem_set_ok: "0 \<le> i \<Longrightarrow> i < int (length xs) \<Longrightarrow> elem_set xs i v = Inr (xs[nat i := v])"
  by (simp add: elem_set_def in_bounds_def)

lemma elem_get_ok: "0 \<le> i \<Longrightarrow> i < int (length xs) \<Longrightarrow> elem_get xs i = Inr (xs ! nat i)"
  by (simp add: elem_get_def in_bounds_def)

lemma upto_small [simp]:
  "[0..numeral n] = (0::int) # [1..numeral n]"
  "[1..numeral n] = (1::int) # [2..numeral n]"
  "[0..1] = [0, 1::int]" "[1..0] = ([]::int list)"
  "[0..- 1] = ([] :: int list)"
  by (simp_all add: upto_rec1)

subsection \<open>Order selection\<close>

declare OrderForEvaluating_loop.simps [simp del]

lemma reaches_refl: "reaches sea ff r dimn me p p"
  by (simp add: reaches_def)

lemma reaches_step:
  "\<not> fact_invalid sea dimn p \<Longrightarrow> bound_term sea ff r dimn p > me \<Longrightarrow>
   reaches sea ff r dimn me (p + 1) p' \<Longrightarrow> reaches sea ff r dimn me p p'"
  unfolding reaches_def
proof
  fix q assume a: "\<not> fact_invalid sea dimn p" "bound_term sea ff r dimn p > me"
    "\<forall>q\<in>{p + 1..<p'}. \<not> fact_invalid sea dimn q \<and> me < bound_term sea ff r dimn q"
    "q \<in> {p..<p'}"
  show "\<not> fact_invalid sea dimn q \<and> me < bound_term sea ff r dimn q"
  proof (cases "q = p")
    case True with a show ?thesis by simp
  next
    case False with a(4) have "q \<in> {p + 1..<p'}" by simp
    with a(3) show ?thesis by blast
  qed
qed

lemma loop_unfold_step:
  assumes "p \<le> mo" "dimn \<noteq> 0" "0 \<le> p"
  shows "OrderForEvaluating_loop sea ff r dimn mo me p (r ^ nat p) =
     (if fact_invalid sea dimn p then Inr (-1, None)
      else if bound_term sea ff r dimn p > me
           then OrderForEvaluating_loop sea ff r dimn mo me (p + 1) (r ^ nat (p + 1))
           else Inr (p, Some (bound_term sea ff r dimn p)))"
proof -
  have pw: "r ^ nat p * r = r ^ nat (p + 1)"
    using assms(3) by (simp add: nat_add_distrib)
  show ?thesis
    using assms(1,2)
    by (subst OrderForEvaluating_loop.simps)
       (simp add: Let_def fact_invalid_def bound_term_def pw)
qed

lemma loop_unfold_stop:
  "p > mo \<Longrightarrow> OrderForEvaluating_loop sea ff r dimn mo me p rr = Inr (-1, None)"
  by (subst OrderForEvaluating_loop.simps) simp

lemma loop_cases:
  assumes "dimn \<noteq> 0" "0 \<le> p"
  shows "(\<exists>p'. p \<le> p' \<and> reaches sea ff r dimn me p p' \<and> (p' > mo \<or> fact_invalid sea dimn p') \<and>
              (\<forall>q\<in>{p..<p'}. q \<le> mo) \<and>
              OrderForEvaluating_loop sea ff r dimn mo me p (r ^ nat p) = Inr (-1, None))
       \<or> (\<exists>ret. p \<le> ret \<and> ret \<le> mo \<and> reaches sea ff r dimn me p ret \<and>
              \<not> fact_invalid sea dimn ret \<and> bound_term sea ff r dimn ret \<le> me \<and>
              OrderForEvaluating_loop sea ff r dimn mo me p (r ^ nat p) =
                Inr (ret, Some (bound_term sea ff r dimn ret)))"
  using assms(2)
proof (induction "nat (mo + 1 - p)" arbitrary: p)
  case 0
  then have "p > mo" by simp
  then have "OrderForEvaluating_loop sea ff r dimn mo me p (r ^ nat p) = Inr (-1, None)"
    by (rule loop_unfold_stop)
  with \<open>p > mo\<close> show ?case
    using reaches_refl [of sea ff r dimn me p] by (intro disjI1 exI [of _ p]) simp
next
  case (Suc n)
  then have le: "p \<le> mo" and nn: "0 \<le> p" by simp_all
  note step = loop_unfold_step [OF le assms(1) nn, of sea ff r me]
  show ?case
  proof (cases "fact_invalid sea dimn p")
    case True
    with step have "OrderForEvaluating_loop sea ff r dimn mo me p (r ^ nat p) = Inr (-1, None)"
      by simp
    with True show ?thesis
      using reaches_refl [of sea ff r dimn me p] by (intro disjI1 exI [of _ p]) simp
  next
    case valid: False
    show ?thesis
    proof (cases "bound_term sea ff r dimn p > me")
      case False
      with valid step have "OrderForEvaluating_loop sea ff r dimn mo me p (r ^ nat p) =
          Inr (p, Some (bound_term sea ff r dimn p))" by simp
      with False valid le show ?thesis
        using reaches_refl [of sea ff r dimn me p] by (intro disjI2 exI [of _ p]) simp
    next
      case True
      with valid step have eq: "OrderForEvaluating_loop sea ff r dimn mo me p (r ^ nat p) =
          OrderForEvaluating_loop sea ff r dimn mo me (p + 1) (r ^ nat (p + 1))" by simp
      have n: "n = nat (mo + 1 - (p + 1))" using Suc(2) by simp
      have nn1: "0 \<le> p + 1" using nn by simp
      from Suc(1) [OF n nn1] show ?thesis
      proof
        assume "\<exists>p'. p + 1 \<le> p' \<and> reaches sea ff r dimn me (p + 1) p' \<and>
           (mo < p' \<or> fact_invalid sea dimn p') \<and> (\<forall>q\<in>{p + 1..<p'}. q \<le> mo) \<and>
           OrderForEvaluating_loop sea ff r dimn mo me (p + 1) (r ^ nat (p + 1)) = Inr (- 1, None)"
        then obtain p' where p': "p + 1 \<le> p'" "reaches sea ff r dimn me (p + 1) p'"
           "mo < p' \<or> fact_invalid sea dimn p'" "\<forall>q\<in>{p + 1..<p'}. q \<le> mo"
           "OrderForEvaluating_loop sea ff r dimn mo me (p + 1) (r ^ nat (p + 1)) = Inr (- 1, None)"
          by blast
        have r: "reaches sea ff r dimn me p p'"
          using valid True p'(2) by (rule reaches_step)
        have b: "\<forall>q\<in>{p..<p'}. q \<le> mo"
        proof
          fix q assume "q \<in> {p..<p'}"
          then have "q = p \<or> q \<in> {p + 1..<p'}" by auto
          with le p'(4) show "q \<le> mo" by blast
        qed
        from p'(1) r p'(3) b p'(5) eq show ?thesis
          by (intro disjI1 exI [of _ p']) simp
      next
        assume "\<exists>ret\<ge>p + 1. ret \<le> mo \<and> reaches sea ff r dimn me (p + 1) ret \<and>
            \<not> fact_invalid sea dimn ret \<and> bound_term sea ff r dimn ret \<le> me \<and>
            OrderForEvaluating_loop sea ff r dimn mo me (p + 1) (r ^ nat (p + 1)) =
              Inr (ret, Some (bound_term sea ff r dimn ret))"
        then obtain ret where ret: "p + 1 \<le> ret" "ret \<le> mo" "reaches sea ff r dimn me (p + 1) ret"
            "\<not> fact_invalid sea dimn ret" "bound_term sea ff r dimn ret \<le> me"
            "OrderForEvaluating_loop sea ff r dimn mo me (p + 1) (r ^ nat (p + 1)) =
              Inr (ret, Some (bound_term sea ff r dimn ret))" by blast
        have r: "reaches sea ff r dimn me p ret"
          using valid True ret(3) by (rule reaches_step)
        from ret r eq show ?thesis
          by (intro disjI2 exI [of _ ret]) simp
      qed
    qed
  qed
qed

lemma search_reaches_eq:
  "search_reaches this lr md me p =
     reaches (sea_m this) (front_factor this md) (width_ratio this lr) (int (length lr)) me 0 p"
  by (simp add: search_reaches_def reaches_def order_invalid_def order_bound_def)

lemma OrderForEvaluating_cases:
  assumes "local_region \<noteq> []"
  shows "(region_too_wide this local_region \<and>
          OrderForEvaluating this local_region md me = Inr (-1, None))
       \<or> (\<not> region_too_wide this local_region \<and>
          (\<exists>p'\<ge>0. search_reaches this local_region md me p' \<and>
              (p' > get_max_order (sea_m this) \<or> order_invalid this local_region p') \<and>
              (\<forall>q\<in>{0..<p'}. q \<le> get_max_order (sea_m this)) \<and>
              OrderForEvaluating this local_region md me = Inr (-1, None)))
       \<or> (\<not> region_too_wide this local_region \<and>
          (\<exists>ret\<ge>0. ret \<le> get_max_order (sea_m this) \<and>
              search_reaches this local_region md me ret \<and>
              \<not> order_invalid this local_region ret \<and>
              order_bound this local_region md ret \<le> me \<and>
              OrderForEvaluating this local_region md me =
                Inr (ret, Some (order_bound this local_region md ret))))"
proof (cases "region_too_wide this local_region")
  case True
  then have "OrderForEvaluating this local_region md me = Inr (-1, None)"
    by (simp add: OrderForEvaluating_def region_too_wide_def width_ratio_def Let_def)
  with True show ?thesis by simp
next
  case False
  have d: "int (length local_region) \<noteq> 0" using assms by simp
  have eq: "OrderForEvaluating this local_region md me =
      OrderForEvaluating_loop (sea_m this) (front_factor this md) (width_ratio this local_region)
        (int (length local_region)) (get_max_order (sea_m this)) me 0
        (width_ratio this local_region ^ nat 0)"
    using False
    by (simp add: OrderForEvaluating_def region_too_wide_def width_ratio_def front_factor_def
        Let_def)
  from loop_cases [OF d, of 0 "sea_m this" "front_factor this md" "width_ratio this local_region"
      me "get_max_order (sea_m this)"]
  show ?thesis
    unfolding eq [symmetric] search_reaches_eq order_invalid_def order_bound_def
    using False by auto
qed

lemma ex_ratio: "width_ratio ex_local ex_region = 1 / 2"
  by (simp add: width_ratio_def widest_width_of_def ex_region_def ex_local_def width_def)

lemma search_reachesD:
  "search_reaches this lr md me p \<Longrightarrow> 0 \<le> q \<Longrightarrow> q < p \<Longrightarrow>
     \<not> order_invalid this lr q \<and> order_bound this lr md q > me"
  by (simp add: search_reaches_def)

lemma found_not_failed:
  assumes ret: "0 \<le> ret" "ret \<le> get_max_order (sea_m this)"
      "search_reaches this lr md me ret" "\<not> order_invalid this lr ret"
      "order_bound this lr md ret \<le> me"
  shows "\<not> search_passes_max_order this lr md me \<and> \<not> factorial_lookup_fails this lr md me"
proof
  show "\<not> search_passes_max_order this lr md me"
  proof
    assume "search_passes_max_order this lr md me"
    then have "search_reaches this lr md me (max 0 (get_max_order (sea_m this) + 1))"
      by (simp add: search_passes_max_order_def)
    moreover have "ret < max 0 (get_max_order (sea_m this) + 1)" using ret(2) by simp
    ultimately have "order_bound this lr md ret > me"
      using ret(1) by (blast dest: search_reachesD)
    with ret(5) show False by simp
  qed
  show "\<not> factorial_lookup_fails this lr md me"
  proof
    assume "factorial_lookup_fails this lr md me"
    then obtain p where p: "0 \<le> p" "p \<le> get_max_order (sea_m this)"
        "search_reaches this lr md me p" "order_invalid this lr p"
      by (auto simp: factorial_lookup_fails_def)
    consider "p < ret" | "p = ret" | "ret < p" by linarith
    then show False
    proof cases
      case 1 with search_reachesD [OF ret(3) p(1)] p(4) show False by simp
    next
      case 2 with p(4) ret(4) show False by simp
    next
      case 3 with search_reachesD [OF p(3) ret(1)] ret(5) show False by simp
    qed
  qed
qed

lemma failed_is_condition:
  assumes p': "0 \<le> p'" "search_reaches this lr md me p'"
      "p' > get_max_order (sea_m this) \<or> order_invalid this lr p'"
      "\<forall>q\<in>{0..<p'}. q \<le> get_max_order (sea_m this)"
  shows "search_passes_max_order this lr md me \<or> factorial_lookup_fails this lr md me"
proof (cases "p' > get_max_order (sea_m this)")
  case True
  have "p' = max 0 (get_max_order (sea_m this) + 1)"
  proof (cases "p' = 0")
    case True with \<open>p' > get_max_order (sea_m this)\<close> show ?thesis by simp
  next
    case False
    with p'(1) have "p' - 1 \<in> {0..<p'}" by simp
    with p'(4) have "p' - 1 \<le> get_max_order (sea_m this)" by blast
    with True p'(1) show ?thesis by simp
  qed
  with p'(2) show ?thesis by (simp add: search_passes_max_order_def)
next
  case False
  with p' have "p' \<in> {0..get_max_order (sea_m this)}" "order_invalid this lr p'" by simp_all
  with p'(2) show ?thesis unfolding factorial_lookup_fails_def by blast
qed

lemma OrderForEvaluating_outcome:
  assumes "local_region \<noteq> []"
  obtains (wide) "region_too_wide this local_region"
      "OrderForEvaluating this local_region md me = Inr (- 1, None)"
  | (failed) p' where "\<not> region_too_wide this local_region" "0 \<le> p'"
      "search_reaches this local_region md me p'"
      "get_max_order (sea_m this) < p' \<or> order_invalid this local_region p'"
      "\<forall>q\<in>{0..<p'}. q \<le> get_max_order (sea_m this)"
      "OrderForEvaluating this local_region md me = Inr (- 1, None)"
  | (found) ret where "\<not> region_too_wide this local_region" "0 \<le> ret"
      "ret \<le> get_max_order (sea_m this)" "search_reaches this local_region md me ret"
      "\<not> order_invalid this local_region ret" "order_bound this local_region md ret \<le> me"
      "OrderForEvaluating this local_region md me =
         Inr (ret, Some (order_bound this local_region md ret))"
  using OrderForEvaluating_cases [OF assms, of this md me] by blast

lemma ex_region_nonempty: "ex_region \<noteq> []"
  by (simp add: ex_region_def)

lemma ex_bandwidth_positive: "0 < bandwidth_sq (kernel_m ex_local)"
  by (simp add: ex_local_def)

lemma ex_factorial_nonzero: "\<forall>k. factorial (sea_m ex_local) k \<noteq> 0"
  by (simp add: ex_local_def ex_sea_def)

text \<open>Claim C4. For a region of at least one dimension \<^verbatim>\<open>OrderForEvaluating\<close> returns, and
  it returns the sentinel \<open>- 1\<close> if and only if the widest width over twice the bandwidth is
  at least one, or the search passes the maximum order of the table with every bound term
  above \<open>max_error\<close>, or a factorial looked up by the search is negative. No other outcome
  exists: the call does not fault. The bandwidth is positive and no factorial of the table
  is zero, so that no quotient of the call has a zero divisor and the reals give its
  value.\<close>

theorem OrderForEvaluating_sentinel_iff:
  assumes "local_region \<noteq> []"
    and "0 < bandwidth_sq (kernel_m this)"
    and "\<forall>k. factorial (sea_m this) k \<noteq> 0"
  shows "\<exists>ret ae. OrderForEvaluating this local_region md me = Inr (ret, ae) \<and>
     (ret = - 1 \<longleftrightarrow>
        region_too_wide this local_region \<or>
        search_passes_max_order this local_region md me \<or>
        factorial_lookup_fails this local_region md me)"
  using assms(1)
proof (cases rule: OrderForEvaluating_outcome [of local_region this md me])
  case wide
  then show ?thesis by simp
next
  case (failed p')
  from failed_is_condition [OF failed(2-5)] failed(6) show ?thesis by auto
next
  case (found ret)
  from found_not_failed [OF found(2-6)] found(1,2,7) show ?thesis by auto
qed

theorem OrderForEvaluating_sentinel_iff_witness:
  "ex_region \<noteq> [] \<and> 0 < bandwidth_sq (kernel_m ex_local) \<and>
   OrderForEvaluating ex_local ex_region 0 (1 / 4) = Inr (1, Some (1 / 4)) \<and>
   \<not> region_too_wide ex_local ex_region \<and>
   \<not> search_passes_max_order ex_local ex_region 0 (1 / 4) \<and>
   \<not> factorial_lookup_fails ex_local ex_region 0 (1 / 4)"
proof -
  have ev: "OrderForEvaluating ex_local ex_region 0 (1 / 4) = Inr (1, Some (1 / 4))"
    by (simp add: OrderForEvaluating_def widest_width_of_def ex_region_def ex_local_def width_def
      ex_sea_def OrderForEvaluating_loop.simps Let_def signed_modulo_int_def power_int_def)
  from OrderForEvaluating_sentinel_iff [OF ex_region_nonempty ex_bandwidth_positive
      ex_factorial_nonzero, of 0 "1 / 4"] ex_region_nonempty ex_bandwidth_positive ev
  show ?thesis by simp
qed

lemma ex_eval_quarter:
  "OrderForEvaluating ex_local ex_region 0 (1 / 4) = Inr (1, Some (1 / 4))"
  by (simp add: OrderForEvaluating_def widest_width_of_def ex_region_def ex_local_def width_def
      ex_sea_def OrderForEvaluating_loop.simps Let_def signed_modulo_int_def power_int_def)

lemma ex_eval_half:
  "OrderForEvaluating ex_local ex_region 0 (1 / 2) = Inr (0, Some (1 / 2))"
  by (simp add: OrderForEvaluating_def widest_width_of_def ex_region_def ex_local_def width_def
      ex_sea_def OrderForEvaluating_loop.simps Let_def signed_modulo_int_def power_int_def)

lemma ex_eval_tiny:
  "OrderForEvaluating ex_local ex_region 0 0 = Inr (- 1, None)"
  by (simp add: OrderForEvaluating_def widest_width_of_def ex_region_def ex_local_def width_def
      ex_sea_def OrderForEvaluating_loop.simps Let_def signed_modulo_int_def power_int_def)

text \<open>Claim C5. When \<^verbatim>\<open>OrderForEvaluating\<close> returns an order other than the sentinel, that
  order is the smallest candidate whose bound term is at most \<open>max_error\<close>, and the value
  stored through \<^verbatim>\<open>actual_error\<close> is that bound term; when every candidate up to the maximum
  order has a bound term above \<open>max_error\<close>, the sentinel is returned. The region has at
  least one dimension, the bandwidth is positive and no factorial of the table is zero.\<close>

theorem OrderForEvaluating_smallest_order:
  assumes "local_region \<noteq> []"
    and "0 < bandwidth_sq (kernel_m this)"
    and "\<forall>k. factorial (sea_m this) k \<noteq> 0"
  shows "\<exists>ret ae. OrderForEvaluating this local_region md me = Inr (ret, ae) \<and>
     (ret \<noteq> - 1 \<longrightarrow>
        0 \<le> ret \<and> ret \<le> get_max_order (sea_m this) \<and>
        order_bound this local_region md ret \<le> me \<and>
        (\<forall>q\<in>{0..<ret}. order_bound this local_region md q > me) \<and>
        ae = Some (order_bound this local_region md ret)) \<and>
     ((\<forall>q\<in>{0..get_max_order (sea_m this)}. order_bound this local_region md q > me)
        \<longrightarrow> ret = - 1)"
  using assms(1)
proof (cases rule: OrderForEvaluating_outcome [of local_region this md me])
  case wide
  then show ?thesis by simp
next
  case (failed p')
  then show ?thesis by simp
next
  case (found ret)
  have "\<forall>q\<in>{0..<ret}. order_bound this local_region md q > me"
    using found(4) by (simp add: search_reaches_def)
  moreover have "\<not> (\<forall>q\<in>{0..get_max_order (sea_m this)}. order_bound this local_region md q > me)"
    using found(2,3,6) by (auto intro!: bexI [of _ ret])
  ultimately show ?thesis using found(2,3,6,7) by simp
qed

theorem OrderForEvaluating_smallest_order_witness:
  "ex_region \<noteq> [] \<and> 0 < bandwidth_sq (kernel_m ex_local) \<and>
   OrderForEvaluating ex_local ex_region 0 (1 / 4) = Inr (1, Some (1 / 4)) \<and>
   order_bound ex_local ex_region 0 1 = 1 / 4 \<and>
   order_bound ex_local ex_region 0 0 > 1 / 4"
proof -
  have "(0::int) \<in> {0..<1}" by simp
  with OrderForEvaluating_smallest_order [OF ex_region_nonempty ex_bandwidth_positive
      ex_factorial_nonzero, of 0 "1 / 4"]
    ex_region_nonempty ex_bandwidth_positive ex_eval_quarter
  show ?thesis by auto
qed

text \<open>Claim C6. Order selection is monotone in the error budget: with the expansion, the
  region and the minimum squared distance fixed and \<open>e1 \<le> e2\<close>, a call with \<open>e1\<close> that
  returns an order \<open>p1\<close> other than the sentinel makes the call with \<open>e2\<close> return an order
  \<open>p2 \<le> p1\<close> other than the sentinel.\<close>

theorem OrderForEvaluating_mono_max_error:
  assumes "local_region \<noteq> []" and "e1 \<le> e2"
    and "OrderForEvaluating this local_region md e1 = Inr (p1, ae1)" and "p1 \<noteq> - 1"
  shows "\<exists>p2 ae2. OrderForEvaluating this local_region md e2 = Inr (p2, ae2) \<and>
           p2 \<noteq> - 1 \<and> p2 \<le> p1"
proof -
  have one: "0 \<le> p1 \<and> p1 \<le> get_max_order (sea_m this) \<and>
      search_reaches this local_region md e1 p1 \<and> \<not> order_invalid this local_region p1 \<and>
      order_bound this local_region md p1 \<le> e1"
    using assms(1)
  proof (cases rule: OrderForEvaluating_outcome [of local_region this md e1])
    case wide with assms(3,4) show ?thesis by simp
  next
    case (failed p') with assms(3,4) show ?thesis by simp
  next
    case (found ret) with assms(3) show ?thesis by simp
  qed
  then have p1: "0 \<le> p1" "p1 \<le> get_max_order (sea_m this)"
      "search_reaches this local_region md e1 p1" "\<not> order_invalid this local_region p1"
      "order_bound this local_region md p1 \<le> e2"
    using assms(2) by simp_all
  have wide1: "\<not> region_too_wide this local_region"
    using assms(1)
  proof (cases rule: OrderForEvaluating_outcome [of local_region this md e1])
    case wide with assms(3,4) show ?thesis by simp
  qed simp_all
  show ?thesis
    using assms(1)
  proof (cases rule: OrderForEvaluating_outcome [of local_region this md e2])
    case wide with wide1 show ?thesis by simp
  next
    case (failed p')
    consider "p' < p1" | "p' = p1" | "p1 < p'" by linarith
    then have False
    proof cases
      case 1
      with search_reachesD [OF p1(3) failed(2)] p1(2) failed(4) show False by simp
    next
      case 2 with failed(4) p1(2,4) show False by simp
    next
      case 3
      with search_reachesD [OF failed(3) p1(1)] p1(5) show False by simp
    qed
    then show ?thesis ..
  next
    case (found ret)
    have "ret \<le> p1"
    proof (rule ccontr)
      assume "\<not> ret \<le> p1"
      then have "p1 < ret" by simp
      with search_reachesD [OF found(4) p1(1)] p1(5) show False by simp
    qed
    with found(2,7) show ?thesis by simp
  qed
qed

theorem OrderForEvaluating_mono_max_error_witness:
  "ex_region \<noteq> [] \<and> (1 / 4 :: real) \<le> 1 / 2 \<and>
   OrderForEvaluating ex_local ex_region 0 (1 / 4) = Inr (1, Some (1 / 4)) \<and>
   OrderForEvaluating ex_local ex_region 0 (1 / 2) = Inr (0, Some (1 / 2)) \<and>
   (\<exists>p2 ae2. OrderForEvaluating ex_local ex_region 0 (1 / 2) = Inr (p2, ae2) \<and>
       p2 \<noteq> - 1 \<and> p2 \<le> 1)"
proof -
  have le: "(1 / 4 :: real) \<le> 1 / 2" by simp
  have ne: "(1::int) \<noteq> - 1" by simp
  from OrderForEvaluating_mono_max_error [OF ex_region_nonempty le ex_eval_quarter ne]
  show ?thesis using ex_region_nonempty ex_eval_quarter ex_eval_half by simp
qed

lemma OrderForEvaluating_empty_region:
  "OrderForEvaluating this [] md me = Inr (- 1, None) \<or>
   OrderForEvaluating this [] md me = Inl DivisionByZero"
  by (simp add: OrderForEvaluating_def Let_def OrderForEvaluating_loop.simps)

text \<open>Claim C10. A call of \<^verbatim>\<open>OrderForEvaluating\<close> that returns the sentinel \<open>- 1\<close> stores
  nothing through \<^verbatim>\<open>actual_error\<close>, and a call that returns an order stores the bound it
  achieved; on a region of at least one dimension the call returns.\<close>

theorem OrderForEvaluating_sentinel_no_store:
  "(local_region \<noteq> [] \<longrightarrow>
      (\<exists>ret ae. OrderForEvaluating this local_region md me = Inr (ret, ae))) \<and>
   (\<forall>ret ae. OrderForEvaluating this local_region md me = Inr (ret, ae) \<longrightarrow>
      (ret = - 1 \<longleftrightarrow> ae = None))"
proof (cases "local_region = []")
  case True
  with OrderForEvaluating_empty_region [of this md me] show ?thesis by auto
next
  case False
  then show ?thesis
  proof (cases rule: OrderForEvaluating_outcome [of local_region this md me])
    case wide then show ?thesis by simp
  next
    case (failed p') then show ?thesis by simp
  next
    case (found ret) then show ?thesis by auto
  qed
qed

theorem OrderForEvaluating_sentinel_no_store_witness:
  "ex_region \<noteq> [] \<and> OrderForEvaluating ex_local ex_region 0 0 = Inr (- 1, None) \<and>
   OrderForEvaluating ex_local ex_region 0 (1 / 4) = Inr (1, Some (1 / 4))"
  using OrderForEvaluating_sentinel_no_store [of ex_region ex_local 0 0]
    ex_region_nonempty ex_eval_tiny ex_eval_quarter
  by simp

subsection \<open>Initialisation\<close>

lemma SetZero_replicate: "SetZero v = replicate (length v) 0"
  by (simp add: SetZero_def map_replicate_const)

lemma Vector_Init_ok:
  "0 \<le> n \<Longrightarrow> Vector_Init al n = Inr (map (fresh_double al) [0..<nat n])"
  by (simp add: Vector_Init_def)

text \<open>The overload without a centre, on an allocator whose fresh storage holds ones and a
  table of dimension one: the centre it leaves is \<open>[1]\<close>, not the zero vector.\<close>

theorem Init_without_center_not_zero:
  "map_sum id center_m (Init_without_center ex_alloc ex_Kernel_Init 1 ex_sea)
     \<noteq> Inr (replicate (nat (get_dimension ex_sea)) 0)"
  by (simp add: Init_without_center_def Vector_Init_def bnd_def ex_sea_def ex_alloc_def)

text \<open>Claim C9, amended. When the table's maximum coefficient count is not negative, either
  overload of \<^verbatim>\<open>Init\<close> leaves order 0 and a coefficient buffer of that length with every
  entry zero. The overload with a centre keeps the centre it was given; the overload
  without one, when the dimension is not negative, leaves a centre of the table's dimension
  whose entries are those of the fresh storage: it does not write them.\<close>

theorem Init_postcondition:
  assumes "0 \<le> get_max_total_num_coeffs sea"
  shows "(\<exists>e. Init_with_center al Kernel_Init bandwidth center sea = Inr e \<and>
            order_m e = 0 \<and>
            int (length (coeffs_m e)) = get_max_total_num_coeffs sea \<and>
            coeffs_m e = replicate (nat (get_max_total_num_coeffs sea)) 0 \<and>
            center_m e = center) \<and>
         (0 \<le> get_dimension sea \<longrightarrow>
          (\<exists>e. Init_without_center al Kernel_Init bandwidth sea = Inr e \<and>
            order_m e = 0 \<and>
            int (length (coeffs_m e)) = get_max_total_num_coeffs sea \<and>
            coeffs_m e = replicate (nat (get_max_total_num_coeffs sea)) 0 \<and>
            int (length (center_m e)) = get_dimension sea \<and>
            center_m e = map (fresh_double al) [0..<nat (get_dimension sea)]))"
  using assms
  by (simp add: Init_with_center_def Init_without_center_def Vector_Init_ok bnd_def
      SetZero_replicate)

theorem Init_postcondition_witness:
  "0 \<le> get_max_total_num_coeffs ex_sea \<and> 0 \<le> get_dimension ex_sea \<and>
   map_sum id coeffs_m (Init_without_center ex_alloc ex_Kernel_Init 1 ex_sea) = Inr [0, 0, 0] \<and>
   map_sum id order_m (Init_without_center ex_alloc ex_Kernel_Init 1 ex_sea) = Inr 0 \<and>
   map_sum id center_m (Init_without_center ex_alloc ex_Kernel_Init 1 ex_sea) = Inr [1] \<and>
   map_sum id coeffs_m (Init_with_center ex_alloc ex_Kernel_Init 1 [5] ex_sea) = Inr [0, 0, 0] \<and>
   map_sum id center_m (Init_with_center ex_alloc ex_Kernel_Init 1 [5] ex_sea) = Inr [5]"
proof -
  have n: "0 \<le> get_max_total_num_coeffs ex_sea" and d: "0 \<le> get_dimension ex_sea"
    by (simp_all add: ex_sea_def)
  have v: "get_max_total_num_coeffs ex_sea = 3" "get_dimension ex_sea = 1"
    by (simp_all add: ex_sea_def)
  from Init_postcondition [OF n, of ex_alloc ex_Kernel_Init 1 "[5]"] n d
  show ?thesis
    by (auto simp: v numeral_3_eq_3 ex_alloc_def)
qed

subsection \<open>Evaluation at order zero\<close>

lemma EvaluateField_order_zero_value:
  assumes "order_m this = 0" and "get_total_num_coeffs (sea_m this) 0 = 1"
    and "EvaluateField al kd this data row_num x_q = Inr v"
  shows "v = coeffs_m this ! 0"
  using assms
  by (auto simp: EvaluateField_def Let_def bnd_eq_Inr Vector_Init_def elem_set_def elem_get_def
      in_bounds_def split: if_splits prod.splits)


lemma EvaluateField_order_zero_returns:
  assumes o: "order_m this = 0" and t: "get_total_num_coeffs (sea_m this) 0 = 1"
    and d: "0 \<le> get_dimension (sea_m this)"
    and c: "get_dimension (sea_m this) \<le> int (length (center_m this))"
    and ne: "coeffs_m this \<noteq> []"
    and q: "\<forall>i\<in>{0..<get_dimension (sea_m this)}. \<not> isl (query_coordinate data row_num x_q i)"
  shows "\<exists>v. EvaluateField al kd this data row_num x_q = Inr v"
proof -
  define dimn where "dimn = get_dimension (sea_m this)"
  define bf where "bf = BandwidthFactor kd (bandwidth_sq (kernel_m this))"
  define x0 where "x0 = map (fresh_double al) [0..<nat dimn]"
  define h0 where "h0 = map (fresh_int al) [0..<nat (dimn + 1)]"
  have vx: "Vector_Init al dimn = Inr x0"
    using d by (simp add: Vector_Init_def x0_def dimn_def)
  have vt: "Vector_Init al 1 = Inr [fresh_double al 0]"
    by (simp add: Vector_Init_def)
  have vh: "ArrayList_Init al (dimn + 1) = Inr h0"
    using d by (simp add: ArrayList_Init_def h0_def dimn_def)
  have "\<exists>x. forM [0..dimn - 1] (\<lambda>i x.
                bnd (query_coordinate data row_num x_q i) (\<lambda>q.
                bnd (elem_get (center_m this) i) (\<lambda>c.
                  elem_set x i ((q - c) / bf)))) x0 = Inr x \<and> length x = nat dimn"
  proof (rule forM_succeeds)
    show "length x0 = nat dimn" by (simp add: x0_def)
  next
    fix i and x :: Vector
    assume i: "i \<in> set [0..dimn - 1]" and l: "length x = nat dimn"
    then have ib: "0 \<le> i" "i < dimn" by auto
    then have "i \<in> {0..<get_dimension (sea_m this)}" by (simp add: dimn_def)
    with q have "\<not> isl (query_coordinate data row_num x_q i)" by blast
    then obtain qv where qv: "query_coordinate data row_num x_q i = Inr qv"
      by (cases "query_coordinate data row_num x_q i") simp_all
    have cv: "elem_get (center_m this) i = Inr (center_m this ! nat i)"
      using ib c by (intro elem_get_ok) (simp_all add: dimn_def)
    have "elem_set x i ((qv - center_m this ! nat i) / bf) =
        Inr (x[nat i := (qv - center_m this ! nat i) / bf])"
      using ib l by (intro elem_set_ok) simp_all
    with qv cv show "\<exists>s'. bnd (query_coordinate data row_num x_q i) (\<lambda>q.
                bnd (elem_get (center_m this) i) (\<lambda>c.
                  elem_set x i ((q - c) / bf))) = Inr s' \<and> length s' = nat dimn"
      using l by simp
  qed
  then obtain x where x: "forM [0..dimn - 1] (\<lambda>i x.
                bnd (query_coordinate data row_num x_q i) (\<lambda>q.
                bnd (elem_get (center_m this) i) (\<lambda>c.
                  elem_set x i ((q - c) / bf)))) x0 = Inr x" by blast
  have "\<exists>h. forM [0..dimn - 1] (\<lambda>i heads. elem_set heads i 0) h0 = Inr h \<and>
          length h = nat (dimn + 1)"
  proof (rule forM_succeeds)
    show "length h0 = nat (dimn + 1)" by (simp add: h0_def)
  next
    fix i and h :: "int list"
    assume i: "i \<in> set [0..dimn - 1]" and l: "length h = nat (dimn + 1)"
    then have "elem_set h i 0 = Inr (h[nat i := 0])"
      by (intro elem_set_ok) auto
    with l show "\<exists>s'. elem_set h i 0 = Inr s' \<and> length s' = nat (dimn + 1)" by simp
  qed
  then obtain h where h: "forM [0..dimn - 1] (\<lambda>i heads. elem_set heads i 0) h0 = Inr h"
      "length h = nat (dimn + 1)" by blast
  have hs: "elem_set h dimn MAXINT = Inr (h[nat dimn := MAXINT])"
    using h(2) d by (intro elem_set_ok) (simp_all add: dimn_def)
  have ts: "elem_set [fresh_double al 0] 0 1 = Inr [1]"
    by (simp add: elem_set_def in_bounds_def)
  have cs: "elem_get (coeffs_m this) 0 = Inr (coeffs_m this ! 0)"
    using ne by (simp add: elem_get_def in_bounds_def)
  have "EvaluateField al kd this data row_num x_q = Inr (coeffs_m this ! 0)"
    using vx vt vh x h(1) hs ts cs
    by (simp add: EvaluateField_def Let_def o t dimn_def [symmetric] bf_def [symmetric]
        elem_get_def in_bounds_def)
  then show ?thesis ..
qed

text \<open>Claim C7. For an expansion of order 0, with the table giving one coefficient at
  order 0, \<^verbatim>\<open>EvaluateField\<close> returns the coefficient at position 0 whatever the query point
  is, given as a vector or as a row of a matrix: a call that returns returns that value,
  and the call returns whenever the centre and the query point have as many coordinates as
  the table's dimension and the coefficient buffer is not empty.\<close>

theorem EvaluateField_order_zero:
  assumes "order_m this = 0" and "get_total_num_coeffs (sea_m this) 0 = 1"
  shows "(\<forall>v. EvaluateField al kd this data row_num x_q = Inr v \<longrightarrow> v = coeffs_m this ! 0) \<and>
         (0 \<le> get_dimension (sea_m this) \<and>
          get_dimension (sea_m this) \<le> int (length (center_m this)) \<and>
          coeffs_m this \<noteq> [] \<and>
          (\<forall>i\<in>{0..<get_dimension (sea_m this)}.
              \<not> isl (query_coordinate data row_num x_q i))
          \<longrightarrow> EvaluateField al kd this data row_num x_q = Inr (coeffs_m this ! 0))"
proof (intro conjI allI impI)
  fix v assume "EvaluateField al kd this data row_num x_q = Inr v"
  with assms show "v = coeffs_m this ! 0" by (rule EvaluateField_order_zero_value)
next
  assume wf: "0 \<le> get_dimension (sea_m this) \<and>
          get_dimension (sea_m this) \<le> int (length (center_m this)) \<and>
          coeffs_m this \<noteq> [] \<and>
          (\<forall>i\<in>{0..<get_dimension (sea_m this)}.
              \<not> isl (query_coordinate data row_num x_q i))"
  then obtain v where v: "EvaluateField al kd this data row_num x_q = Inr v"
    using EvaluateField_order_zero_returns [OF assms, of data row_num x_q al kd] by blast
  with assms have "v = coeffs_m this ! 0" by (rule EvaluateField_order_zero_value)
  with v show "EvaluateField al kd this data row_num x_q = Inr (coeffs_m this ! 0)" by simp
qed

theorem EvaluateField_order_zero_witness:
  "order_m ex_constant = 0 \<and>
   get_total_num_coeffs (sea_m ex_constant) 0 = 1 \<and>
   EvaluateField ex_alloc ex_kd ex_constant None 0 (Some [3]) = Inr 5 \<and>
   EvaluateField ex_alloc ex_kd ex_constant (Some [[8], [9]]) 1 None = Inr 5"
proof -
  have o: "order_m ex_constant = 0"
    and t: "get_total_num_coeffs (sea_m ex_constant) 0 = 1"
    by (simp_all add: ex_constant_def ex_local_def ex_sea_def)
  have d: "get_dimension (sea_m ex_constant) = 1"
    and c: "center_m ex_constant = [0]"
    and k: "coeffs_m ex_constant = [5, 0, 0]"
    by (simp_all add: ex_constant_def ex_local_def ex_sea_def)
  have q1: "\<forall>i\<in>{0..<get_dimension (sea_m ex_constant)}.
      \<not> isl (query_coordinate None 0 (Some [3]) i)"
    by (simp add: d query_coordinate_def elem_get_def in_bounds_def)
  have q2: "\<forall>i\<in>{0..<get_dimension (sea_m ex_constant)}.
      \<not> isl (query_coordinate (Some [[8], [9]]) 1 None i)"
    by (simp add: d query_coordinate_def Matrix_get_def elem_get_def in_bounds_def bnd_def)
  have w: "0 \<le> get_dimension (sea_m ex_constant)"
      "get_dimension (sea_m ex_constant) \<le> int (length (center_m ex_constant))"
      "coeffs_m ex_constant \<noteq> []"
    by (simp_all add: d c k)
  have e1: "EvaluateField ex_alloc ex_kd ex_constant None 0 (Some [3]) =
      Inr (coeffs_m ex_constant ! 0)"
    using EvaluateField_order_zero [OF o t, of ex_alloc ex_kd None 0 "Some [3]"] w q1
    by blast
  have e2: "EvaluateField ex_alloc ex_kd ex_constant (Some [[8], [9]]) 1 None =
      Inr (coeffs_m ex_constant ! 0)"
    using EvaluateField_order_zero [OF o t, of ex_alloc ex_kd "Some [[8], [9]]" 1 None] w q2
    by blast
  show ?thesis using o t e1 e2 by (simp add: k)
qed

subsection \<open>The order never decreases\<close>


lemma AccumulateCoeffs_frame:
  assumes "AccumulateCoeffs al kd this data weights begin_r end_r order = Inr e"
  shows "order_m e = max (order_m this) order \<and> sea_m e = sea_m this \<and>
         center_m e = center_m this \<and> kernel_m e = kernel_m this"
  using assms
  by (auto simp: AccumulateCoeffs_def Let_def bnd_eq_Inr max_def split: prod.splits if_splits)

lemma TranslateFromFarField_frame:
  assumes "TranslateFromFarField al kd this se = Inr e"
  shows "order_m e = max (order_m this) (ff_order se) \<and> sea_m e = sea_m this \<and>
         center_m e = center_m this \<and> kernel_m e = kernel_m this"
  using assms
  by (auto simp: TranslateFromFarField_def Let_def bnd_eq_Inr max_def split: prod.splits if_splits)

lemma TranslateToLocal_j_body_frame:
  assumes "TranslateToLocal_j_body this se center_diff dimn total_num_coeffs j (st, ts) = Inr (st', ts')"
  shows "\<exists>coeffs. st' = st(se := (st se)\<lparr>coeffs_m := coeffs\<rparr>)"
  using assms
  by (auto simp: TranslateToLocal_j_body_def Let_def bnd_eq_Inr split: prod.splits)

lemma TranslateToLocal_j_loop_frame:
  assumes "forM js (TranslateToLocal_j_body this se center_diff dimn total_num_coeffs) (st, ts)
             = Inr (st', ts')"
  shows "\<exists>coeffs. st' = st(se := (st se)\<lparr>coeffs_m := coeffs\<rparr>)"
proof -
  have "case (st', ts') of (s, t) \<Rightarrow> \<exists>coeffs. s = st(se := (st se)\<lparr>coeffs_m := coeffs\<rparr>)"
  proof (rule forM_preserves [OF assms])
    have "st = st(se := (st se)\<lparr>coeffs_m := coeffs_m (st se)\<rparr>)" by simp
    then show "case (st, ts) of (s, t) \<Rightarrow> \<exists>coeffs. s = st(se := (st se)\<lparr>coeffs_m := coeffs\<rparr>)"
      by blast
  next
    fix i and s s' :: "store \<times> int list"
    assume p: "case s of (s, t) \<Rightarrow> \<exists>coeffs. s = st(se := (st se)\<lparr>coeffs_m := coeffs\<rparr>)"
      and b: "TranslateToLocal_j_body this se center_diff dimn total_num_coeffs i s = Inr s'"
    obtain s1 t1 where s: "s = (s1, t1)" by (cases s)
    obtain s2 t2 where s': "s' = (s2, t2)" by (cases s')
    from p s obtain c1 where c1: "s1 = st(se := (st se)\<lparr>coeffs_m := c1\<rparr>)" by auto
    from TranslateToLocal_j_body_frame [OF b [unfolded s s']]
    obtain c2 where "s2 = s1(se := (s1 se)\<lparr>coeffs_m := c2\<rparr>)" by blast
    with c1 have "s2 = st(se := (st se)\<lparr>coeffs_m := c2\<rparr>)" by simp
    with s' show "case s' of (s, t) \<Rightarrow> \<exists>coeffs. s = st(se := (st se)\<lparr>coeffs_m := coeffs\<rparr>)"
      by auto
  qed
  then show ?thesis by simp
qed

lemma TranslateToLocal_frame:
  assumes "TranslateToLocal al kd this se st = Inr st'"
  shows "order_m (st' se) = max (order_m (st se)) (order_m (st this)) \<and>
         sea_m (st' se) = sea_m (st se) \<and> center_m (st' se) = center_m (st se) \<and>
         kernel_m (st' se) = kernel_m (st se) \<and> (\<forall>a. a \<noteq> se \<longrightarrow> st' a = st a)"
proof -
  define st1 where "st1 = (if order_m (st se) < order_m (st this)
                      then st(se := (st se)\<lparr>order_m := order_m (st this)\<rparr>) else st)"
  from assms obtain center_diff ts ts' where
    "forM [0..get_total_num_coeffs (sea_m (st this)) (order_m (st this)) - 1]
       (TranslateToLocal_j_body this se center_diff (get_dimension (sea_m (st this)))
          (get_total_num_coeffs (sea_m (st this)) (order_m (st this)))) (st1, ts) = Inr (st', ts')"
    by (auto simp: TranslateToLocal_def Let_def bnd_eq_Inr st1_def split: prod.splits)
  from TranslateToLocal_j_loop_frame [OF this]
  obtain coeffs where "st' = st1(se := (st1 se)\<lparr>coeffs_m := coeffs\<rparr>)" by blast
  then show ?thesis
    by (auto simp: st1_def max_def)
qed

lemma exec_order_mono:
  assumes "exec al kd c st = Inr st'"
  shows "order_m (st a) \<le> order_m (st' a)"
proof (cases c)
  case (Accumulate b data weights begin_r end_r order)
  with assms obtain e where e: "AccumulateCoeffs al kd (st b) data weights begin_r end_r order = Inr e"
    and st': "st' = st(b := e)" by (auto simp: bnd_eq_Inr)
  from AccumulateCoeffs_frame [OF e] st' show ?thesis by auto
next
  case (FromFarField b se)
  with assms obtain e where e: "TranslateFromFarField al kd (st b) se = Inr e"
    and st': "st' = st(b := e)" by (auto simp: bnd_eq_Inr)
  from TranslateFromFarField_frame [OF e] st' show ?thesis by auto
next
  case (ToLocal this se)
  with assms have "TranslateToLocal al kd this se st = Inr st'" by simp
  from TranslateToLocal_frame [OF this] show ?thesis
    by (cases "a = se") auto
qed

lemma run_append: "run al kd (xs @ ys) st = bnd (run al kd xs st) (run al kd ys)"
proof (induction xs arbitrary: st)
  case Nil show ?case by simp
next
  case (Cons x xs)
  then show ?case by (cases "exec al kd x st") simp_all
qed

lemma run_order_mono:
  assumes "run al kd cs st = Inr st'"
  shows "order_m (st a) \<le> order_m (st' a)"
  using assms
proof (induction cs arbitrary: st)
  case Nil then show ?case by simp
next
  case (Cons c cs)
  then obtain st1 where s: "exec al kd c st = Inr st1" "run al kd cs st1 = Inr st'"
    by (auto simp: bnd_eq_Inr)
  from exec_order_mono [OF s(1), of a] Cons.IH [OF s(2)] show ?case by simp
qed

text \<open>Claim C1. In a sequence of calls of \<^verbatim>\<open>AccumulateCoeffs\<close>, \<^verbatim>\<open>TranslateFromFarField\<close> and
  \<^verbatim>\<open>TranslateToLocal\<close> on the expansions of a store, every call leaves the order of every
  expansion, the one it is called on and the one it is passed, at least what it was before
  the call, and so does the whole sequence.\<close>

theorem order_never_decreases:
  assumes "run al kd (before @ c # after) st = Inr st_end"
  shows "\<exists>st1 st2. run al kd before st = Inr st1 \<and> exec al kd c st1 = Inr st2 \<and>
           run al kd after st2 = Inr st_end \<and>
           (\<forall>a. order_m (st1 a) \<le> order_m (st2 a)) \<and>
           (\<forall>a. order_m (st a) \<le> order_m (st_end a))"
proof -
  from assms obtain st1 st2 where s: "run al kd before st = Inr st1" "exec al kd c st1 = Inr st2"
      "run al kd after st2 = Inr st_end"
    by (auto simp: run_append bnd_eq_Inr)
  have "\<forall>a. order_m (st1 a) \<le> order_m (st2 a)"
    using exec_order_mono [OF s(2)] by blast
  moreover have "\<forall>a. order_m (st a) \<le> order_m (st_end a)"
    using run_order_mono [OF assms] by blast
  ultimately show ?thesis using s by blast
qed

lemma ex_calls_split:
  "ex_calls = [Accumulate 0 ex_data ex_weights 0 2 1] @ ToLocal 0 1 # [FromFarField 1 ex_far]"
  by (simp add: ex_calls_def)

lemma ex_run_orders:
  "map_sum id (\<lambda>st. (order_m (st 0), order_m (st 1), order_m (st 2)))
     (run ex_alloc ex_kd ex_calls ex_store) = Inr (1, 1, 0)"
  by (simp add: ex_calls_def ex_store_def ex_far_def
      AccumulateCoeffs_def AccumulateCoeffs_r_body_def
      TranslateToLocal_def TranslateToLocal_j_body_def
      TranslateFromFarField_def TranslateFromFarField_j_body_def TranslateFromFarField_k_body_def
      Let_def ex_local_def ex_sea_def ex_kd_def ex_alloc_def
      ex_data_def ex_weights_def Matrix_Init_def Vector_Init_def ArrayList_Init_def
      elem_get_def elem_set_def in_bounds_def Matrix_get_def power_int_def)

theorem order_never_decreases_witness:
  "map_sum id (\<lambda>st. (order_m (st 0), order_m (st 1), order_m (st 2)))
     (run ex_alloc ex_kd ex_calls ex_store) = Inr (1, 1, 0) \<and>
   order_m (ex_store 0) = 0 \<and> order_m (ex_store 1) = 0 \<and> order_m (ex_store 2) = 0"
proof -
  obtain st_end where r: "run ex_alloc ex_kd ex_calls ex_store = Inr st_end"
    using ex_run_orders by (cases "run ex_alloc ex_kd ex_calls ex_store") simp_all
  from order_never_decreases [OF r [unfolded ex_calls_split]]
  have "\<forall>a. order_m (ex_store a) \<le> order_m (st_end a)" by blast
  moreover have "order_m (ex_store 0) = 0" "order_m (ex_store 1) = 0" "order_m (ex_store 2) = 0"
    by (simp_all add: ex_store_def ex_local_def)
  ultimately show ?thesis using ex_run_orders by simp
qed


subsection \<open>Accumulation is a sum over the points\<close>

lemma forM_fill:
  assumes "forM [0..n - 1] (\<lambda>i x. bnd (val i) (\<lambda>v. elem_set x i v)) x0 = Inr x"
  shows "length x = length x0 \<and>
         (\<forall>i. 0 \<le> i \<and> i < n \<longrightarrow> i < int (length x0) \<and> val i = Inr (x ! nat i)) \<and>
         (\<forall>k. n \<le> int k \<longrightarrow> x ! k = x0 ! k)"
proof -
  define I where "I = (\<lambda>m (y :: 'a list). length y = length x0 \<and>
         (\<forall>i. 0 \<le> i \<and> i < m \<longrightarrow> i < int (length x0) \<and> val i = Inr (y ! nat i)) \<and>
         (\<forall>k. m \<le> int k \<longrightarrow> y ! k = x0 ! k))"
  have "I (max 0 (n - 1 + 1)) x"
  proof (rule forM_upto_indexed [OF assms])
    show "I 0 x0" by (auto simp: I_def)
  next
    fix i and s s' :: "'a list"
    assume i: "0 \<le> i" "i \<le> n - 1" and inv: "I i s"
      and b: "bnd (val i) (\<lambda>v. elem_set s i v) = Inr s'"
    from b obtain v where v: "val i = Inr v" "elem_set s i v = Inr s'"
      by (auto simp: bnd_eq_Inr)
    from v(2) have ib: "i < int (length s)" and s': "s' = s[nat i := v]"
      by (auto simp: elem_set_def in_bounds_def split: if_splits)
    have len: "length s = length x0" using inv by (simp add: I_def)
    show "I (i + 1) s'"
      unfolding I_def
    proof (intro conjI allI impI)
      show "length s' = length x0" using s' len by simp
    next
      fix j assume j: "0 \<le> j \<and> j < i + 1"
      show "j < int (length x0)" using j ib len by simp
      show "val j = Inr (s' ! nat j)"
      proof (cases "j = i")
        case True
        with v(1) s' ib i(1) show ?thesis by simp
      next
        case False
        with j have ji: "j < i" by simp
        with inv j have "val j = Inr (s ! nat j)" by (simp add: I_def)
        moreover have "nat j \<noteq> nat i" using ji j by simp
        ultimately show ?thesis using s' by simp
      qed
    next
      fix k assume k: "i + 1 \<le> int k"
      then have "k \<noteq> nat i" using i(1) by (auto split: if_splits)
      moreover have "s ! k = x0 ! k" using inv k by (simp add: I_def)
      ultimately show "s' ! k = x0 ! k" using s' by simp
    qed
  qed
  then show ?thesis
    by (auto simp: I_def)
qed

lemma forM_update:
  assumes "forM [0..n - 1] (\<lambda>i x. bnd (elem_get x i) (\<lambda>old. bnd (val i)
              (\<lambda>v. elem_set x i (F old v)))) x0 = Inr x"
  shows "length x = length x0 \<and>
         (\<forall>i. 0 \<le> i \<and> i < n \<longrightarrow> i < int (length x0) \<and>
               (\<exists>v. val i = Inr v \<and> x ! nat i = F (x0 ! nat i) v)) \<and>
         (\<forall>k. n \<le> int k \<longrightarrow> x ! k = x0 ! k)"
proof -
  define I where "I = (\<lambda>m (y :: 'a list). length y = length x0 \<and>
         (\<forall>i. 0 \<le> i \<and> i < m \<longrightarrow> i < int (length x0) \<and>
               (\<exists>v. val i = Inr v \<and> y ! nat i = F (x0 ! nat i) v)) \<and>
         (\<forall>k. m \<le> int k \<longrightarrow> y ! k = x0 ! k))"
  have "I (max 0 (n - 1 + 1)) x"
  proof (rule forM_upto_indexed [OF assms])
    show "I 0 x0" by (auto simp: I_def)
  next
    fix i and s s' :: "'a list"
    assume i: "0 \<le> i" "i \<le> n - 1" and inv: "I i s"
      and b: "bnd (elem_get s i) (\<lambda>old. bnd (val i) (\<lambda>v. elem_set s i (F old v))) = Inr s'"
    from b obtain old v where v: "elem_get s i = Inr old" "val i = Inr v"
        "elem_set s i (F old v) = Inr s'"
      by (auto simp: bnd_eq_Inr)
    from v(1,3) have ib: "i < int (length s)" and old: "old = s ! nat i"
      and s': "s' = s[nat i := F old v]"
      by (auto simp: elem_set_def elem_get_def in_bounds_def split: if_splits)
    have len: "length s = length x0" using inv by (simp add: I_def)
    have old0: "old = x0 ! nat i" using inv old i(1) by (simp add: I_def)
    show "I (i + 1) s'"
      unfolding I_def
    proof (intro conjI allI impI)
      show "length s' = length x0" using s' len by simp
    next
      fix j assume j: "0 \<le> j \<and> j < i + 1"
      show "j < int (length x0)" using j ib len by simp
      show "\<exists>v. val j = Inr v \<and> s' ! nat j = F (x0 ! nat j) v"
      proof (cases "j = i")
        case True
        with v(2) s' ib i(1) old0 show ?thesis by simp
      next
        case False
        with j have ji: "j < i" by simp
        with inv j obtain w where "val j = Inr w" "s ! nat j = F (x0 ! nat j) w"
          unfolding I_def by blast
        moreover have "nat j \<noteq> nat i" using ji j by simp
        ultimately show ?thesis using s' by simp
      qed
    next
      fix k assume k: "i + 1 \<le> int k"
      then have "k \<noteq> nat i" using i(1) by (auto split: if_splits)
      moreover have "s ! k = x0 ! k" using inv k by (simp add: I_def)
      ultimately show "s' ! k = x0 ! k" using s' by simp
    qed
  qed
  then show ?thesis
    by (auto simp: I_def)
qed

lemma scaled_difference_length [simp]: "length (scaled_difference a b bf dimn) = nat dimn"
  by (simp add: scaled_difference_def)

lemma scaled_difference_nth:
  "i < nat dimn \<Longrightarrow> scaled_difference a b bf dimn ! i = (a ! i - b ! i) / bf"
  by (simp add: scaled_difference_def)

lemma bnd_assoc: "bnd (bnd m f) g = bnd m (\<lambda>x. bnd (f x) g)"
  by (cases m) simp_all

lemma elem_get_Inr: "elem_get xs i = Inr v \<longleftrightarrow> 0 \<le> i \<and> i < int (length xs) \<and> v = xs ! nat i"
  by (auto simp: elem_get_def in_bounds_def)

lemma Matrix_get_Inr:
  "Matrix_get m r c = Inr v \<longleftrightarrow>
     0 \<le> c \<and> c < int (length m) \<and> 0 \<le> r \<and> r < int (length (m ! nat c)) \<and> v = m ! nat c ! nat r"
  by (auto simp: Matrix_get_def bnd_eq_Inr elem_get_Inr)

lemma AccumulateCoeffs_r_body_result:
  assumes b: "AccumulateCoeffs_r_body kd this data weights order dimn tnc bf r (coeffs, arrtmp, x)
                = Inr (coeffs', arrtmp', x')"
    and la: "length arrtmp = nat tnc" and lx: "length x = nat dimn"
    and dimn: "dimn = get_dimension (sea_m this)"
    and bf: "bf = BandwidthFactor kd (bandwidth_sq (kernel_m this))"
  shows "length coeffs' = length coeffs" and "length arrtmp' = nat tnc" and "length x' = nat dimn"
    and "\<And>j. j < nat tnc \<Longrightarrow>
              coeffs' ! j = coeffs ! j +
                point_term kd this order (data ! nat r, weights ! nat r) j"
    and "\<And>k. tnc \<le> int k \<Longrightarrow> coeffs' ! k = coeffs ! k"
proof -
  define val1 where "val1 = (\<lambda>d. bnd (elem_get (center_m this) d) (\<lambda>c.
       bnd (Matrix_get data d r) (\<lambda>v. Inr ((c - v) / bf))))"
  define dmap where "dmap = ComputeDirectionalDerivatives kd x' dimn (order + 1)"
  define val2 :: "int \<Rightarrow> fault + real" where
    "val2 = (\<lambda>j. Inr (ComputePartialDerivative kd dmap (get_multiindex (sea_m this) j)))"
  define val3 where "val3 = (\<lambda>j. bnd (elem_get (get_neg_inv_multiindex_factorials (sea_m this)) j)
       (\<lambda>f. bnd (elem_get weights r) (\<lambda>w. bnd (elem_get arrtmp' j) (\<lambda>a. Inr (f * w * a)))))"
  from b have
    l1: "forM [0..dimn - 1] (\<lambda>d x. bnd (val1 d) (\<lambda>v. elem_set x d v)) x = Inr x'"
    and l2: "forM [0..tnc - 1] (\<lambda>j a. bnd (val2 j) (\<lambda>v. elem_set a j v)) arrtmp = Inr arrtmp'"
    and l3: "forM [0..tnc - 1] (\<lambda>j c. bnd (elem_get c j) (\<lambda>old. bnd (val3 j)
                (\<lambda>v. elem_set c j (old + v)))) coeffs = Inr coeffs'"
    by (auto simp: AccumulateCoeffs_r_body_def Let_def bnd_eq_Inr val1_def val2_def val3_def
        dmap_def bnd_assoc)
  note f1 = forM_fill [OF l1] and f2 = forM_fill [OF l2] and f3 = forM_update [OF l3]
  have x': "x' = scaled_difference (center_m this) (data ! nat r) bf dimn"
  proof (rule nth_equalityI)
    show "length x' = length (scaled_difference (center_m this) (data ! nat r) bf dimn)"
      using f1 lx by simp
  next
    fix i assume "i < length x'"
    then have i: "0 \<le> int i \<and> int i < dimn" using f1 lx by simp
    with f1 have "val1 (int i) = Inr (x' ! nat (int i))" by blast
    then have "x' ! i = (center_m this ! i - data ! nat r ! i) / bf"
      by (auto simp: val1_def bnd_eq_Inr elem_get_Inr Matrix_get_Inr)
    moreover have "i < nat dimn" using i by simp
    ultimately show "x' ! i = scaled_difference (center_m this) (data ! nat r) bf dimn ! i"
      by (simp add: scaled_difference_nth)
  qed
  have tm: "coeffs' ! nat j = coeffs ! nat j +
        point_term kd this order (data ! nat r, weights ! nat r) (nat j)"
    if j: "0 \<le> j \<and> j < tnc" for j
  proof -
    from f3 j obtain v where v: "val3 j = Inr v" "coeffs' ! nat j = coeffs ! nat j + v" by blast
    from f2 j have a: "val2 j = Inr (arrtmp' ! nat j)" by blast
    from v(1) a j have "v = get_neg_inv_multiindex_factorials (sea_m this) ! nat j *
        weights ! nat r * ComputePartialDerivative kd dmap (get_multiindex (sea_m this) j)"
      by (auto simp: val3_def val2_def bnd_eq_Inr elem_get_Inr)
    with v(2) j show "coeffs' ! nat j = coeffs ! nat j +
        point_term kd this order (data ! nat r, weights ! nat r) (nat j)"
      by (simp add: point_term_def dmap_def x' dimn bf)
  qed
  show "length coeffs' = length coeffs" using f3 by simp
  show "length arrtmp' = nat tnc" using f2 la by simp
  show "length x' = nat dimn" using f1 lx by simp
  show "coeffs' ! j = coeffs ! j + point_term kd this order (data ! nat r, weights ! nat r) j"
    if "j < nat tnc" for j
    using tm [of "int j"] that by simp
  show "coeffs' ! k = coeffs ! k" if "tnc \<le> int k" for k
    using f3 [THEN conjunct2, THEN conjunct2] that by simp
qed

lemma point_term_cong:
  "sea_m e = sea_m this \<Longrightarrow> center_m e = center_m this \<Longrightarrow> kernel_m e = kernel_m this \<Longrightarrow>
     point_term kd e = point_term kd this"
  by (simp add: point_term_def fun_eq_iff)

lemma points_sum_cong:
  "sea_m e = sea_m this \<Longrightarrow> center_m e = center_m this \<Longrightarrow> kernel_m e = kernel_m this \<Longrightarrow>
     points_sum kd e = points_sum kd this"
  by (simp add: points_sum_def fun_eq_iff point_term_cong [of e this])

lemma selected_points_snoc:
  "begin_r \<le> i \<Longrightarrow> selected_points data weights begin_r (i + 1) =
     selected_points data weights begin_r i @ [(data ! nat i, weights ! nat i)]"
  by (simp add: selected_points_def upto_rec2)

lemma selected_points_empty: "end_r \<le> begin_r \<Longrightarrow> selected_points data weights begin_r end_r = []"
  by (simp add: selected_points_def)

lemma AccumulateCoeffs_r_loop_result:
  assumes l: "forM [begin_r..end_r - 1]
                (AccumulateCoeffs_r_body kd this data weights order dimn tnc bf)
                (coeffs, arrtmp, x) = Inr (coeffs', arrtmp', x')"
    and la: "length arrtmp = nat tnc" and lx: "length x = nat dimn"
    and dimn: "dimn = get_dimension (sea_m this)"
    and bf: "bf = BandwidthFactor kd (bandwidth_sq (kernel_m this))"
  shows "length coeffs' = length coeffs"
    and "\<And>j. j < nat tnc \<Longrightarrow> coeffs' ! j = coeffs ! j +
            sum_list (map (\<lambda>p. point_term kd this order p j)
              (selected_points data weights begin_r end_r))"
    and "\<And>k. tnc \<le> int k \<Longrightarrow> coeffs' ! k = coeffs ! k"
proof -
  define I where "I = (\<lambda>i (s :: Vector \<times> Vector \<times> Vector).
      length (fst s) = length coeffs \<and> length (fst (snd s)) = nat tnc \<and>
      length (snd (snd s)) = nat dimn \<and>
      (\<forall>j. j < nat tnc \<longrightarrow>
           fst s ! j = coeffs ! j +
              sum_list (map (\<lambda>p. point_term kd this order p j)
                     (selected_points data weights begin_r i))) \<and>
      (\<forall>k. tnc \<le> int k \<longrightarrow> fst s ! k = coeffs ! k))"
  have "I (max begin_r (end_r - 1 + 1)) (coeffs', arrtmp', x')"
  proof (rule forM_upto_indexed [OF l])
    have "selected_points data weights begin_r begin_r = []"
      by (rule selected_points_empty) simp
    then show "I begin_r (coeffs, arrtmp, x)"
      unfolding I_def using la lx by simp
  next
    fix i and s s' :: "Vector \<times> Vector \<times> Vector"
    assume i: "begin_r \<le> i" "i \<le> end_r - 1" and inv: "I i s"
      and b: "AccumulateCoeffs_r_body kd this data weights order dimn tnc bf i s = Inr s'"
    obtain c a y where s: "s = (c, a, y)" by (cases s)
    obtain c' a' y' where s': "s' = (c', a', y')" by (cases s')
    from inv have inv1: "length c = length coeffs" and inv2: "length a = nat tnc"
      and inv3: "length y = nat dimn"
      and inv4: "\<forall>j. j < nat tnc \<longrightarrow> c ! j = coeffs ! j +
              sum_list (map (\<lambda>p. point_term kd this order p j)
                     (selected_points data weights begin_r i))"
      and inv5: "\<forall>k. tnc \<le> int k \<longrightarrow> c ! k = coeffs ! k"
      unfolding I_def s by simp_all
    note r = AccumulateCoeffs_r_body_result [OF b [unfolded s s'] inv2 inv3 dimn bf]
    have sn: "selected_points data weights begin_r (i + 1) =
        selected_points data weights begin_r i @ [(data ! nat i, weights ! nat i)]"
      using i(1) by (rule selected_points_snoc)
    have n4: "\<forall>j. j < nat tnc \<longrightarrow> c' ! j = coeffs ! j +
              sum_list (map (\<lambda>p. point_term kd this order p j)
                     (selected_points data weights begin_r (i + 1)))"
    proof (intro allI impI)
      fix j assume j: "j < nat tnc"
      have "c' ! j = c ! j + point_term kd this order (data ! nat i, weights ! nat i) j"
        using j by (rule r(4))
      also have "c ! j = coeffs ! j +
              sum_list (map (\<lambda>p. point_term kd this order p j)
                     (selected_points data weights begin_r i))"
        using inv4 j by blast
      finally show "c' ! j = coeffs ! j +
              sum_list (map (\<lambda>p. point_term kd this order p j)
                     (selected_points data weights begin_r (i + 1)))"
        unfolding sn by simp
    qed
    have n5: "\<forall>k. tnc \<le> int k \<longrightarrow> c' ! k = coeffs ! k"
    proof (intro allI impI)
      fix k assume k: "tnc \<le> int k"
      have "c' ! k = c ! k" using k by (rule r(5))
      with inv5 k show "c' ! k = coeffs ! k" by simp
    qed
    have n1: "length c' = length coeffs" using r(1) inv1 by simp
    show "I (i + 1) s'"
      unfolding I_def s' using n1 r(2) r(3) n4 n5 by simp
  qed
  moreover have "selected_points data weights begin_r (max begin_r (end_r - 1 + 1)) =
      selected_points data weights begin_r end_r"
    by (cases "begin_r \<le> end_r") (simp_all add: max_def selected_points_empty)
  ultimately have fin: "length coeffs' = length coeffs"
      "\<forall>j. j < nat tnc \<longrightarrow> coeffs' ! j = coeffs ! j +
              sum_list (map (\<lambda>p. point_term kd this order p j)
                     (selected_points data weights begin_r end_r))"
      "\<forall>k. tnc \<le> int k \<longrightarrow> coeffs' ! k = coeffs ! k"
    unfolding I_def by simp_all
  show "length coeffs' = length coeffs" by (rule fin(1))
  show "coeffs' ! j = coeffs ! j +
            sum_list (map (\<lambda>p. point_term kd this order p j)
              (selected_points data weights begin_r end_r))" if "j < nat tnc" for j
    using fin(2) that by blast
  show "coeffs' ! k = coeffs ! k" if "tnc \<le> int k" for k
    using fin(3) that by blast
qed

lemma AccumulateCoeffs_result:
  assumes "AccumulateCoeffs al kd this data weights begin_r end_r order = Inr e"
  shows "length (coeffs_m e) = length (coeffs_m this) \<and>
         (\<forall>j. j < length (coeffs_m this) \<longrightarrow>
              coeffs_m e ! j = coeffs_m this ! j +
                points_sum kd this order (selected_points data weights begin_r end_r) j)"
proof -
  define this' where "this' = (if order > order_m this then this\<lparr>order_m := order\<rparr> else this)"
  define tnc where "tnc = get_total_num_coeffs (sea_m this) order"
  define dimn where "dimn = get_dimension (sea_m this)"
  define bf where "bf = BandwidthFactor kd (bandwidth_sq (kernel_m this))"
  have f: "sea_m this' = sea_m this" "center_m this' = center_m this"
      "kernel_m this' = kernel_m this" "coeffs_m this' = coeffs_m this"
    by (simp_all add: this'_def)
  have unf: "AccumulateCoeffs al kd this data weights begin_r end_r order =
      bnd (Matrix_Init al dimn (order + 1)) (\<lambda>derivative_map.
         bnd (Vector_Init al tnc) (\<lambda>arrtmp.
         bnd (Vector_Init al dimn) (\<lambda>x_r_minus_x_Q.
           bnd (forM [begin_r..end_r - 1]
                  (AccumulateCoeffs_r_body kd this' data weights order dimn tnc bf)
                  (coeffs_m this, arrtmp, x_r_minus_x_Q)) (\<lambda>(coeffs, arrtmp, x_r_minus_x_Q).
              Inr (this'\<lparr>coeffs_m := coeffs\<rparr>)))))"
    unfolding AccumulateCoeffs_def Let_def this'_def [symmetric] f tnc_def dimn_def bf_def ..
  from assms [unfolded unf] obtain arrtmp x coeffs' arrtmp' x' where
    a: "Vector_Init al tnc = Inr arrtmp"
    and x: "Vector_Init al dimn = Inr x"
    and l: "forM [begin_r..end_r - 1]
              (AccumulateCoeffs_r_body kd this' data weights order dimn tnc bf)
              (coeffs_m this, arrtmp, x) = Inr (coeffs', arrtmp', x')"
    and e: "e = this'\<lparr>coeffs_m := coeffs'\<rparr>"
    by (auto simp: bnd_eq_Inr split: prod.splits)
  have la: "length arrtmp = nat tnc"
    using a by (auto simp: Vector_Init_def split: if_splits)
  have lx: "length x = nat dimn"
    using x by (auto simp: Vector_Init_def split: if_splits)
  have d': "dimn = get_dimension (sea_m this')" by (simp add: dimn_def f)
  have b': "bf = BandwidthFactor kd (bandwidth_sq (kernel_m this'))" by (simp add: bf_def f)
  have pt: "point_term kd this' = point_term kd this"
    using f(1-3) by (rule point_term_cong)
  note r = AccumulateCoeffs_r_loop_result [OF l la lx d' b', unfolded pt]
  have ce: "coeffs_m e = coeffs'" using e by simp
  show ?thesis
  proof (intro conjI allI impI)
    show "length (coeffs_m e) = length (coeffs_m this)" using r(1) ce by simp
  next
    fix j assume "j < length (coeffs_m this)"
    show "coeffs_m e ! j = coeffs_m this ! j +
        points_sum kd this order (selected_points data weights begin_r end_r) j"
    proof (cases "int j < tnc")
      case True
      then have "j < nat tnc" by simp
      from r(2) [OF this] True show ?thesis
        by (simp add: ce points_sum_def tnc_def)
    next
      case False
      then have "tnc \<le> int j" by simp
      from r(3) [OF this] False show ?thesis
        by (simp add: ce points_sum_def tnc_def)
    qed
  qed
qed

lemma points_sum_append:
  "points_sum kd this order (ps @ qs) j =
     points_sum kd this order ps j + points_sum kd this order qs j"
  by (simp add: points_sum_def)

lemma points_sum_Nil: "points_sum kd this order [] j = 0"
  by (simp add: points_sum_def)

lemma points_sum_mset:
  assumes "mset ps = mset qs"
  shows "points_sum kd this order ps j = points_sum kd this order qs j"
proof -
  have "sum_list (map (\<lambda>p. point_term kd this order p j) ps) =
        sum_mset (image_mset (\<lambda>p. point_term kd this order p j) (mset ps))"
    by (simp add: sum_mset_sum_list [symmetric])
  also have "\<dots> = sum_mset (image_mset (\<lambda>p. point_term kd this order p j) (mset qs))"
    using assms by simp
  also have "\<dots> = sum_list (map (\<lambda>p. point_term kd this order p j) qs)"
    by (simp add: sum_mset_sum_list [symmetric])
  finally show ?thesis by (simp add: points_sum_def)
qed

lemma AccumulateCoeffs_batches_result:
  assumes "AccumulateCoeffs_batches al kd bs order this = Inr e"
  shows "length (coeffs_m e) = length (coeffs_m this) \<and>
         sea_m e = sea_m this \<and> center_m e = center_m this \<and> kernel_m e = kernel_m this \<and>
         (\<forall>j. j < length (coeffs_m this) \<longrightarrow>
              coeffs_m e ! j = coeffs_m this ! j + points_sum kd this order (batch_points bs) j)"
  using assms
proof (induction bs arbitrary: this)
  case Nil
  then show ?case by (simp add: batch_points_def points_sum_Nil)
next
  case (Cons b bs)
  obtain data weights begin_r end_r where b: "b = (data, weights, begin_r, end_r)"
    by (cases b)
  from Cons.prems obtain e1 where
    e1: "AccumulateCoeffs al kd this data weights begin_r end_r order = Inr e1"
    and rest: "AccumulateCoeffs_batches al kd bs order e1 = Inr e"
    by (auto simp: b bnd_eq_Inr)
  note fr = AccumulateCoeffs_frame [OF e1]
  note r1 = AccumulateCoeffs_result [OF e1]
  note r2 = Cons.IH [OF rest]
  have ps: "points_sum kd e1 = points_sum kd this"
    using fr by (intro points_sum_cong) simp_all
  have bp: "batch_points (b # bs) = selected_points data weights begin_r end_r @ batch_points bs"
    by (simp add: batch_points_def b)
  show ?case
  proof (intro conjI allI impI)
    show "length (coeffs_m e) = length (coeffs_m this)" using r1 r2 by simp
    show "sea_m e = sea_m this" using fr r2 by simp
    show "center_m e = center_m this" using fr r2 by simp
    show "kernel_m e = kernel_m this" using fr r2 by simp
  next
    fix j assume j: "j < length (coeffs_m this)"
    then have j1: "j < length (coeffs_m e1)" using r1 by simp
    have "coeffs_m e ! j = coeffs_m e1 ! j + points_sum kd e1 order (batch_points bs) j"
      using r2 j1 by blast
    also have "coeffs_m e1 ! j = coeffs_m this ! j +
        points_sum kd this order (selected_points data weights begin_r end_r) j"
      using r1 j by blast
    finally show "coeffs_m e ! j = coeffs_m this ! j +
        points_sum kd this order (batch_points (b # bs)) j"
      by (simp add: ps bp points_sum_append)
  qed
qed

text \<open>Claim C8. Over exact arithmetic accumulation does not depend on the order in which the
  points are processed: two runs from the same expansion with the same requested order,
  whose batches hold the same multiset of weighted points, in any order within a call and
  split over any number of calls, leave equal coefficient buffers, whatever the fresh
  storage of the scratch vectors holds. Each point adds a term that depends on that point
  alone.\<close>

theorem AccumulateCoeffs_permutation_invariant:
  assumes "AccumulateCoeffs_batches al1 kd bs1 order this = Inr e1"
    and "AccumulateCoeffs_batches al2 kd bs2 order this = Inr e2"
    and "mset (batch_points bs1) = mset (batch_points bs2)"
  shows "coeffs_m e1 = coeffs_m e2"
proof (rule nth_equalityI)
  note r1 = AccumulateCoeffs_batches_result [OF assms(1)]
    and r2 = AccumulateCoeffs_batches_result [OF assms(2)]
  show "length (coeffs_m e1) = length (coeffs_m e2)" using r1 r2 by simp
  fix j assume "j < length (coeffs_m e1)"
  then have j: "j < length (coeffs_m this)" using r1 by simp
  have "coeffs_m e1 ! j = coeffs_m this ! j + points_sum kd this order (batch_points bs1) j"
    using r1 j by blast
  also have "points_sum kd this order (batch_points bs1) j =
      points_sum kd this order (batch_points bs2) j"
    using assms(3) by (rule points_sum_mset)
  also have "coeffs_m this ! j + points_sum kd this order (batch_points bs2) j = coeffs_m e2 ! j"
    using r2 j by simp
  finally show "coeffs_m e1 ! j = coeffs_m e2 ! j" .
qed

lemmas ex_eval_defs = AccumulateCoeffs_def AccumulateCoeffs_r_body_def
      TranslateToLocal_def TranslateToLocal_j_body_def
      TranslateFromFarField_def TranslateFromFarField_j_body_def TranslateFromFarField_k_body_def
      Let_def ex_local_def ex_sea_def ex_kd_def ex_alloc_def
      Matrix_Init_def Vector_Init_def ArrayList_Init_def
      elem_get_def elem_set_def in_bounds_def Matrix_get_def power_int_def

lemma ex_batches_one:
  "map_sum id coeffs_m
     (AccumulateCoeffs_batches ex_alloc ex_kd [(ex_data, ex_weights, 0, 2)] 1 ex_local) =
   Inr [4, 7 / 2, 0]"
  by (simp add: ex_eval_defs ex_data_def ex_weights_def)

lemma ex_batches_two:
  "map_sum id coeffs_m
     (AccumulateCoeffs_batches ex_alloc ex_kd
        [(ex_data_rev, ex_weights_rev, 0, 1), (ex_data_rev, ex_weights_rev, 1, 2)] 1 ex_local) =
   Inr [4, 7 / 2, 0]"
  by (simp add: ex_eval_defs ex_data_rev_def ex_weights_rev_def)

lemma ex_batches_points:
  "mset (batch_points [(ex_data, ex_weights, 0, 2)]) =
   mset (batch_points [(ex_data_rev, ex_weights_rev, 0, 1), (ex_data_rev, ex_weights_rev, 1, 2)])"
  by (simp add: batch_points_def selected_points_def ex_data_def ex_weights_def
      ex_data_rev_def ex_weights_rev_def)

theorem AccumulateCoeffs_permutation_invariant_witness:
  "map_sum id coeffs_m
     (AccumulateCoeffs_batches ex_alloc ex_kd [(ex_data, ex_weights, 0, 2)] 1 ex_local) =
   Inr [4, 7 / 2, 0] \<and>
   map_sum id coeffs_m
     (AccumulateCoeffs_batches ex_alloc ex_kd
        [(ex_data_rev, ex_weights_rev, 0, 1), (ex_data_rev, ex_weights_rev, 1, 2)] 1 ex_local) =
   Inr [4, 7 / 2, 0] \<and>
   mset (batch_points [(ex_data, ex_weights, 0, 2)]) =
   mset (batch_points [(ex_data_rev, ex_weights_rev, 0, 1), (ex_data_rev, ex_weights_rev, 1, 2)])"
proof -
  obtain e1 where e1: "AccumulateCoeffs_batches ex_alloc ex_kd [(ex_data, ex_weights, 0, 2)] 1
      ex_local = Inr e1"
    using ex_batches_one
    by (cases "AccumulateCoeffs_batches ex_alloc ex_kd [(ex_data, ex_weights, 0, 2)] 1 ex_local")
      simp_all
  obtain e2 where e2: "AccumulateCoeffs_batches ex_alloc ex_kd
        [(ex_data_rev, ex_weights_rev, 0, 1), (ex_data_rev, ex_weights_rev, 1, 2)] 1 ex_local
      = Inr e2"
    using ex_batches_two
    by (cases "AccumulateCoeffs_batches ex_alloc ex_kd
        [(ex_data_rev, ex_weights_rev, 0, 1), (ex_data_rev, ex_weights_rev, 1, 2)] 1 ex_local")
      simp_all
  from AccumulateCoeffs_permutation_invariant [OF e1 e2 ex_batches_points]
  have "coeffs_m e1 = coeffs_m e2" .
  with ex_batches_one ex_batches_two ex_batches_points show ?thesis by simp
qed

subsection \<open>Translation adds a sum over the source\<close>

lemma multiindex_sum_length [simp]: "length (multiindex_sum dimension b a) = nat dimension"
  by (simp add: multiindex_sum_def)

lemma TranslateFromFarField_k_body_result:
  assumes b: "TranslateFromFarField_k_body kd sea far_coeffs dmap dimension j beta k (pos, neg, bpa)
                = Inr (pos', neg', bpa')"
    and lb: "length bpa = nat dimension"
    and beta: "beta = get_multiindex sea j"
  shows "length pos' = length pos" and "length neg' = length neg"
    and "length bpa' = nat dimension"
    and "pos' ! nat j + neg' ! nat j =
           pos ! nat j + neg ! nat j + far_field_product kd sea far_coeffs dmap dimension j k"
    and "\<And>i. i \<noteq> nat j \<Longrightarrow> pos' ! i = pos ! i \<and> neg' ! i = neg ! i"
proof -
  define val where "val = (\<lambda>d. bnd (elem_get beta d) (\<lambda>b.
      bnd (elem_get (get_multiindex sea k) d) (\<lambda>a. Inr (b + a))))"
  define prd where "prd = far_coeffs ! nat k * ComputePartialDerivative kd dmap bpa'"
  from b have l: "forM [0..dimension - 1] (\<lambda>d x. bnd (val d) (\<lambda>v. elem_set x d v)) bpa = Inr bpa'"
    and upd: "(prd > 0 \<and> 0 \<le> j \<and> j < int (length pos) \<and>
               pos' = pos[nat j := pos ! nat j + prd] \<and> neg' = neg) \<or>
              (\<not> prd > 0 \<and> 0 \<le> j \<and> j < int (length neg) \<and>
               neg' = neg[nat j := neg ! nat j + prd] \<and> pos' = pos)"
    by (auto simp: TranslateFromFarField_k_body_def Let_def bnd_eq_Inr val_def bnd_assoc prd_def
        elem_get_Inr elem_set_def in_bounds_def split: if_splits)
  note f = forM_fill [OF l]
  have bpa': "bpa' = multiindex_sum dimension beta (get_multiindex sea k)"
  proof (rule nth_equalityI)
    show "length bpa' = length (multiindex_sum dimension beta (get_multiindex sea k))"
      using f lb by simp
  next
    fix i assume "i < length bpa'"
    then have i: "0 \<le> int i \<and> int i < dimension" and i': "i < nat dimension"
      using f lb by simp_all
    with f have "val (int i) = Inr (bpa' ! nat (int i))" by blast
    then have "bpa' ! i = beta ! i + get_multiindex sea k ! i"
      by (auto simp: val_def bnd_eq_Inr elem_get_Inr)
    then show "bpa' ! i = multiindex_sum dimension beta (get_multiindex sea k) ! i"
      using i' by (simp add: multiindex_sum_def)
  qed
  have prd: "prd = far_field_product kd sea far_coeffs dmap dimension j k"
    by (simp add: prd_def bpa' far_field_product_def beta)
  show "length pos' = length pos" using upd by auto
  show "length neg' = length neg" using upd by auto
  show "length bpa' = nat dimension" using f lb by simp
  show "pos' ! nat j + neg' ! nat j =
           pos ! nat j + neg ! nat j + far_field_product kd sea far_coeffs dmap dimension j k"
    using upd prd by auto
  show "pos' ! i = pos ! i \<and> neg' ! i = neg ! i" if "i \<noteq> nat j" for i
    using upd that by auto
qed

lemma far_field_sum_snoc:
  "0 \<le> k \<Longrightarrow> far_field_sum kd sea far dmap dimension (k + 1) j =
     far_field_sum kd sea far dmap dimension k j + far_field_product kd sea far dmap dimension j k"
  by (simp add: far_field_sum_def upto_rec2)

lemma far_field_sum_empty:
  "n \<le> 0 \<Longrightarrow> far_field_sum kd sea far dmap dimension n j = 0"
  by (simp add: far_field_sum_def)

lemma TranslateFromFarField_k_loop_result:
  assumes l: "forM [0..tnc - 1]
                (TranslateFromFarField_k_body kd sea far_coeffs dmap dimension j beta)
                (pos, neg, bpa) = Inr (pos', neg', bpa')"
    and lb: "length bpa = nat dimension"
    and beta: "beta = get_multiindex sea j"
  shows "length pos' = length pos" and "length neg' = length neg"
    and "length bpa' = nat dimension"
    and "pos' ! nat j + neg' ! nat j =
           pos ! nat j + neg ! nat j + far_field_sum kd sea far_coeffs dmap dimension tnc j"
    and "\<And>i. i \<noteq> nat j \<Longrightarrow> pos' ! i = pos ! i \<and> neg' ! i = neg ! i"
proof -
  define I where "I = (\<lambda>k (s :: Vector \<times> Vector \<times> int list).
      length (fst s) = length pos \<and> length (fst (snd s)) = length neg \<and>
      length (snd (snd s)) = nat dimension \<and>
      fst s ! nat j + fst (snd s) ! nat j =
        pos ! nat j + neg ! nat j + far_field_sum kd sea far_coeffs dmap dimension k j \<and>
      (\<forall>i. i \<noteq> nat j \<longrightarrow> fst s ! i = pos ! i \<and> fst (snd s) ! i = neg ! i))"
  have "I (max 0 (tnc - 1 + 1)) (pos', neg', bpa')"
  proof (rule forM_upto_indexed [OF l])
    show "I 0 (pos, neg, bpa)"
      unfolding I_def using lb by (simp add: far_field_sum_empty)
  next
    fix k and s s' :: "Vector \<times> Vector \<times> int list"
    assume k: "0 \<le> k" "k \<le> tnc - 1" and inv: "I k s"
      and b: "TranslateFromFarField_k_body kd sea far_coeffs dmap dimension j beta k s = Inr s'"
    obtain p n y where s: "s = (p, n, y)" by (cases s) auto
    obtain p' n' y' where s': "s' = (p', n', y')" by (cases s') auto
    from inv have inv1: "length p = length pos" and inv2: "length n = length neg"
      and inv3: "length y = nat dimension"
      and inv4: "p ! nat j + n ! nat j =
        pos ! nat j + neg ! nat j + far_field_sum kd sea far_coeffs dmap dimension k j"
      and inv5: "\<forall>i. i \<noteq> nat j \<longrightarrow> p ! i = pos ! i \<and> n ! i = neg ! i"
      unfolding I_def s by simp_all
    note r = TranslateFromFarField_k_body_result [OF b [unfolded s s'] inv3 beta]
    have n4: "p' ! nat j + n' ! nat j =
        pos ! nat j + neg ! nat j + far_field_sum kd sea far_coeffs dmap dimension (k + 1) j"
      using r(4) inv4 by (simp add: far_field_sum_snoc [OF k(1)])
    have n5: "\<forall>i. i \<noteq> nat j \<longrightarrow> p' ! i = pos ! i \<and> n' ! i = neg ! i"
    proof (intro allI impI)
      fix i assume i: "i \<noteq> nat j"
      from r(5) [OF i] inv5 i show "p' ! i = pos ! i \<and> n' ! i = neg ! i" by simp
    qed
    show "I (k + 1) s'"
      unfolding I_def s' using r(1) r(2) r(3) inv1 inv2 n4 n5 by simp
  qed
  moreover have "far_field_sum kd sea far_coeffs dmap dimension (max 0 (tnc - 1 + 1)) j =
      far_field_sum kd sea far_coeffs dmap dimension tnc j"
    by (cases "0 \<le> tnc") (simp_all add: max_def far_field_sum_empty)
  ultimately have fin: "length pos' = length pos" "length neg' = length neg"
      "length bpa' = nat dimension"
      "pos' ! nat j + neg' ! nat j =
           pos ! nat j + neg ! nat j + far_field_sum kd sea far_coeffs dmap dimension tnc j"
      "\<forall>i. i \<noteq> nat j \<longrightarrow> pos' ! i = pos ! i \<and> neg' ! i = neg ! i"
    unfolding I_def by simp_all
  show "length pos' = length pos" by (rule fin(1))
  show "length neg' = length neg" by (rule fin(2))
  show "length bpa' = nat dimension" by (rule fin(3))
  show "pos' ! nat j + neg' ! nat j =
           pos ! nat j + neg ! nat j + far_field_sum kd sea far_coeffs dmap dimension tnc j"
    by (rule fin(4))
  show "pos' ! i = pos ! i \<and> neg' ! i = neg ! i" if "i \<noteq> nat j" for i
    using fin(5) that by blast
qed

lemma TranslateFromFarField_j_body_result:
  assumes b: "TranslateFromFarField_j_body kd sea far_coeffs dmap dimension tnc j (pos, neg, bpa)
                = Inr (pos', neg', bpa')"
    and lb: "length bpa = nat dimension"
  shows "length pos' = length pos" and "length neg' = length neg"
    and "length bpa' = nat dimension"
    and "pos' ! nat j + neg' ! nat j = far_field_sum kd sea far_coeffs dmap dimension tnc j"
    and "\<And>i. i \<noteq> nat j \<Longrightarrow> pos' ! i = pos ! i \<and> neg' ! i = neg ! i"
proof -
  from b have jb: "0 \<le> j" "j < int (length pos)" "j < int (length neg)"
    and l: "forM [0..tnc - 1]
              (TranslateFromFarField_k_body kd sea far_coeffs dmap dimension j
                 (get_multiindex sea j))
              (pos[nat j := 0], neg[nat j := 0], bpa) = Inr (pos', neg', bpa')"
    by (auto simp: TranslateFromFarField_j_body_def Let_def bnd_eq_Inr elem_set_def in_bounds_def
        split: if_splits)
  note r = TranslateFromFarField_k_loop_result [OF l lb refl]
  show "length pos' = length pos" using r(1) by simp
  show "length neg' = length neg" using r(2) by simp
  show "length bpa' = nat dimension" by (rule r(3))
  show "pos' ! nat j + neg' ! nat j = far_field_sum kd sea far_coeffs dmap dimension tnc j"
    using r(4) jb by simp
  show "pos' ! i = pos ! i \<and> neg' ! i = neg ! i" if "i \<noteq> nat j" for i
    using r(5) [OF that] that by simp
qed

lemma TranslateFromFarField_j_loop_result:
  assumes l: "forM [0..tnc - 1]
                (TranslateFromFarField_j_body kd sea far_coeffs dmap dimension tnc)
                (pos, neg, bpa) = Inr (pos', neg', bpa')"
    and lb: "length bpa = nat dimension"
  shows "\<And>j. 0 \<le> j \<Longrightarrow> j < tnc \<Longrightarrow>
           pos' ! nat j + neg' ! nat j = far_field_sum kd sea far_coeffs dmap dimension tnc j"
proof -
  define I where "I = (\<lambda>m (s :: Vector \<times> Vector \<times> int list).
      length (snd (snd s)) = nat dimension \<and>
      (\<forall>j. 0 \<le> j \<and> j < m \<longrightarrow> fst s ! nat j + fst (snd s) ! nat j =
             far_field_sum kd sea far_coeffs dmap dimension tnc j))"
  have "I (max 0 (tnc - 1 + 1)) (pos', neg', bpa')"
  proof (rule forM_upto_indexed [OF l])
    show "I 0 (pos, neg, bpa)"
      unfolding I_def using lb by auto
  next
    fix m and s s' :: "Vector \<times> Vector \<times> int list"
    assume m: "0 \<le> m" "m \<le> tnc - 1" and inv: "I m s"
      and b: "TranslateFromFarField_j_body kd sea far_coeffs dmap dimension tnc m s = Inr s'"
    obtain p n y where s: "s = (p, n, y)" by (cases s) auto
    obtain p' n' y' where s': "s' = (p', n', y')" by (cases s') auto
    from inv have inv3: "length y = nat dimension"
      and inv4: "\<forall>j. 0 \<le> j \<and> j < m \<longrightarrow> p ! nat j + n ! nat j =
             far_field_sum kd sea far_coeffs dmap dimension tnc j"
      unfolding I_def s by simp_all
    note r = TranslateFromFarField_j_body_result [OF b [unfolded s s'] inv3]
    have n4: "\<forall>j. 0 \<le> j \<and> j < m + 1 \<longrightarrow> p' ! nat j + n' ! nat j =
             far_field_sum kd sea far_coeffs dmap dimension tnc j"
    proof (intro allI impI)
      fix j assume j: "0 \<le> j \<and> j < m + 1"
      show "p' ! nat j + n' ! nat j = far_field_sum kd sea far_coeffs dmap dimension tnc j"
      proof (cases "j = m")
        case True
        with r(4) show ?thesis by simp
      next
        case False
        with j have jm: "0 \<le> j \<and> j < m" by simp
        then have "nat j \<noteq> nat m" by auto
        from r(5) [OF this] inv4 jm show ?thesis by simp
      qed
    qed
    show "I (m + 1) s'"
      unfolding I_def s' using r(3) n4 by simp
  qed
  then have fin: "\<forall>j. 0 \<le> j \<and> j < max 0 (tnc - 1 + 1) \<longrightarrow> pos' ! nat j + neg' ! nat j =
             far_field_sum kd sea far_coeffs dmap dimension tnc j"
    unfolding I_def by simp
  show "pos' ! nat j + neg' ! nat j = far_field_sum kd sea far_coeffs dmap dimension tnc j"
    if "0 \<le> j" "j < tnc" for j
    using fin that by simp
qed

lemma Vector_Init_length: "Vector_Init al n = Inr v \<Longrightarrow> length v = nat n"
  by (auto simp: Vector_Init_def split: if_splits)

lemma ArrayList_Init_length: "ArrayList_Init al n = Inr v \<Longrightarrow> length v = nat n"
  by (auto simp: ArrayList_Init_def split: if_splits)

lemma TranslateFromFarField_result:
  assumes "TranslateFromFarField al kd this se = Inr e"
  shows "length (coeffs_m e) = length (coeffs_m this)"
    and "\<And>j. j < length (coeffs_m this) \<Longrightarrow>
           coeffs_m e ! j = coeffs_m this ! j +
             (if int j < get_total_num_coeffs (sea_m this) (ff_order se)
              then far_field_term kd this se j else 0)"
proof -
  define this' where
    "this' = (if ff_order se > order_m this then this\<lparr>order_m := ff_order se\<rparr> else this)"
  define tnc where "tnc = get_total_num_coeffs (sea_m this) (ff_order se)"
  define dimension where "dimension = get_dimension (sea_m this)"
  define bf where "bf = BandwidthFactor kd (ff_bandwidth_sq se)"
  define limit where "limit = 2 * max (order_m this) (ff_order se) + 1"
  define C where "C = get_neg_inv_multiindex_factorials (sea_m this)"
  have f: "sea_m this' = sea_m this" "center_m this' = center_m this"
      "coeffs_m this' = coeffs_m this" "2 * order_m this' + 1 = limit"
    by (simp_all add: this'_def limit_def max_def)
  have unf: "TranslateFromFarField al kd this se =
      bnd (Vector_Init al dimension) (\<lambda>cent_diff.
         bnd (Matrix_Init al dimension limit) (\<lambda>derivative_map.
            bnd (Vector_Init al tnc) (\<lambda>pos_arrtmp.
            bnd (Vector_Init al tnc) (\<lambda>neg_arrtmp.
            bnd (forM [0..dimension - 1] (\<lambda>j cd.
                   bnd (elem_get (center_m this) j) (\<lambda>c.
                   bnd (elem_get (ff_center se) j) (\<lambda>f.
                     elem_set cd j ((c - f) / bf)))) cent_diff) (\<lambda>cent_diff.
            bnd (ArrayList_Init al dimension) (\<lambda>beta_plus_alpha.
               bnd (forM [0..tnc - 1]
                      (TranslateFromFarField_j_body kd (sea_m this) (ff_coeffs se)
                         (ComputeDirectionalDerivatives kd cent_diff dimension limit)
                         dimension tnc)
                      (pos_arrtmp, neg_arrtmp, beta_plus_alpha))
                 (\<lambda>(pos_arrtmp, neg_arrtmp, beta_plus_alpha).
                  bnd (forM [0..tnc - 1] (\<lambda>j coeffs.
                         bnd (elem_get coeffs j) (\<lambda>c.
                         bnd (elem_get pos_arrtmp j) (\<lambda>p.
                         bnd (elem_get neg_arrtmp j) (\<lambda>n.
                         bnd (elem_get C j) (\<lambda>f.
                           elem_set coeffs j (c + (p + n) * f)))))) (coeffs_m this)) (\<lambda>coeffs.
                    Inr (this'\<lparr>coeffs_m := coeffs\<rparr>)))))))))"
    unfolding TranslateFromFarField_def Let_def this'_def [symmetric] f tnc_def dimension_def
      bf_def C_def ..
  from assms [unfolded unf] obtain cd0 cd pos0 neg0 bpa0 pos neg bpa coeffs' where
    cd0: "Vector_Init al dimension = Inr cd0"
    and cdl: "forM [0..dimension - 1] (\<lambda>j cd.
                   bnd (elem_get (center_m this) j) (\<lambda>c.
                   bnd (elem_get (ff_center se) j) (\<lambda>f.
                     elem_set cd j ((c - f) / bf)))) cd0 = Inr cd"
    and bpa0: "ArrayList_Init al dimension = Inr bpa0"
    and jl: "forM [0..tnc - 1]
               (TranslateFromFarField_j_body kd (sea_m this) (ff_coeffs se)
                  (ComputeDirectionalDerivatives kd cd dimension limit) dimension tnc)
               (pos0, neg0, bpa0) = Inr (pos, neg, bpa)"
    and ul: "forM [0..tnc - 1] (\<lambda>j coeffs.
                         bnd (elem_get coeffs j) (\<lambda>c.
                         bnd (elem_get pos j) (\<lambda>p.
                         bnd (elem_get neg j) (\<lambda>n.
                         bnd (elem_get C j) (\<lambda>f.
                           elem_set coeffs j (c + (p + n) * f)))))) (coeffs_m this) = Inr coeffs'"
    and e: "e = this'\<lparr>coeffs_m := coeffs'\<rparr>"
    by (auto simp: bnd_eq_Inr split: prod.splits)
  define val1 where "val1 = (\<lambda>j. bnd (elem_get (center_m this) j) (\<lambda>c.
      bnd (elem_get (ff_center se) j) (\<lambda>f. Inr ((c - f) / bf))))"
  have cdl': "forM [0..dimension - 1] (\<lambda>j cd. bnd (val1 j) (\<lambda>v. elem_set cd j v)) cd0 = Inr cd"
    using cdl by (simp add: val1_def bnd_assoc)
  note f1 = forM_fill [OF cdl']
  have lcd0: "length cd0 = nat dimension" using cd0 by (rule Vector_Init_length)
  have cd: "cd = scaled_difference (center_m this) (ff_center se) bf dimension"
  proof (rule nth_equalityI)
    show "length cd = length (scaled_difference (center_m this) (ff_center se) bf dimension)"
      using f1 lcd0 by simp
  next
    fix i assume "i < length cd"
    then have i: "0 \<le> int i \<and> int i < dimension" and i': "i < nat dimension"
      using f1 lcd0 by simp_all
    with f1 have "val1 (int i) = Inr (cd ! nat (int i))" by blast
    then have "cd ! i = (center_m this ! i - ff_center se ! i) / bf"
      by (auto simp: val1_def bnd_eq_Inr elem_get_Inr)
    then show "cd ! i = scaled_difference (center_m this) (ff_center se) bf dimension ! i"
      using i' by (simp add: scaled_difference_nth)
  qed
  have lb: "length bpa0 = nat dimension" using bpa0 by (rule ArrayList_Init_length)
  note jr = TranslateFromFarField_j_loop_result [OF jl lb]
  define val3 where "val3 = (\<lambda>j. bnd (elem_get pos j) (\<lambda>p.
      bnd (elem_get neg j) (\<lambda>n. bnd (elem_get C j) (\<lambda>f. Inr ((p + n) * f)))))"
  have ul': "forM [0..tnc - 1] (\<lambda>j c. bnd (elem_get c j) (\<lambda>old. bnd (val3 j)
                (\<lambda>v. elem_set c j (old + v)))) (coeffs_m this) = Inr coeffs'"
    using ul by (simp add: val3_def bnd_assoc)
  note f3 = forM_update [OF ul']
  have ce: "coeffs_m e = coeffs'" using e by simp
  show "length (coeffs_m e) = length (coeffs_m this)" using f3 ce by simp
  show "coeffs_m e ! j = coeffs_m this ! j +
             (if int j < get_total_num_coeffs (sea_m this) (ff_order se)
              then far_field_term kd this se j else 0)"
    if j: "j < length (coeffs_m this)" for j
  proof (cases "int j < tnc")
    case True
    then have jj: "0 \<le> int j \<and> int j < tnc" by simp
    with f3 obtain v where v: "val3 (int j) = Inr v"
        "coeffs' ! nat (int j) = coeffs_m this ! nat (int j) + v" by blast
    from v(1) have "v = (pos ! j + neg ! j) * C ! j"
      by (auto simp: val3_def bnd_eq_Inr elem_get_Inr)
    moreover have "pos ! nat (int j) + neg ! nat (int j) =
        far_field_sum kd (sea_m this) (ff_coeffs se)
          (ComputeDirectionalDerivatives kd cd dimension limit) dimension tnc (int j)"
      using jj by (intro jr) simp_all
    ultimately have "v = far_field_term kd this se j"
      by (simp add: far_field_term_def Let_def cd tnc_def dimension_def bf_def limit_def C_def)
    with v(2) True show ?thesis by (simp add: ce tnc_def)
  next
    case False
    then have "tnc \<le> int j" by simp
    with f3 have "coeffs' ! j = coeffs_m this ! j" by blast
    with False show ?thesis by (simp add: ce tnc_def)
  qed
qed

lemma ex_far0_eval:
  "map_sum id (\<lambda>e. (order_m e, coeffs_m e)) (TranslateFromFarField ex_alloc ex_kd ex_order1 ex_far0)
     = Inr (1, [1, 0, 0])"
  by (simp add: ex_eval_defs ex_order1_def ex_far0_def)

lemma ex_far0_term: "far_field_term ex_kd ex_order1 ex_far0 1 = 1"
  by (simp add: far_field_term_def far_field_sum_def far_field_product_def multiindex_sum_def
      scaled_difference_def ex_eval_defs ex_order1_def ex_far0_def)

lemma multiindex_below_iff:
  "multiindex_below dimn a b \<longleftrightarrow> (\<forall>d. 0 \<le> d \<and> d < dimn \<longrightarrow> a ! nat d \<le> b ! nat d)"
proof
  assume m: "multiindex_below dimn a b"
  show "\<forall>d. 0 \<le> d \<and> d < dimn \<longrightarrow> a ! nat d \<le> b ! nat d"
  proof (intro allI impI)
    fix d :: int assume "0 \<le> d \<and> d < dimn"
    then have "nat d \<in> set [0..<nat dimn]" by simp
    with m show "a ! nat d \<le> b ! nat d"
      unfolding multiindex_below_def list_all_iff by blast
  qed
next
  assume a: "\<forall>d. 0 \<le> d \<and> d < dimn \<longrightarrow> a ! nat d \<le> b ! nat d"
  show "multiindex_below dimn a b"
    unfolding multiindex_below_def list_all_iff
  proof
    fix k assume "k \<in> set [0..<nat dimn]"
    then have "0 \<le> int k \<and> int k < dimn" by simp
    with a have "a ! nat (int k) \<le> b ! nat (int k)" by blast
    then show "a ! k \<le> b ! k" by simp
  qed
qed

lemma TranslateToLocal_l_loop_result:
  assumes "TranslateToLocal_l_loop [i..n - 1] beta alpha ts = Inr (flag, ts')"
    and "0 \<le> i" and "length ts = nat n"
  shows "length ts' = nat n \<and>
         (flag \<longrightarrow> (\<exists>d. i \<le> d \<and> d < n \<and> beta ! nat d < alpha ! nat d)) \<and>
         (\<not> flag \<longrightarrow> (\<forall>d. i \<le> d \<and> d < n \<longrightarrow>
                          alpha ! nat d \<le> beta ! nat d \<and>
                          ts' ! nat d = beta ! nat d - alpha ! nat d) \<and>
                      (\<forall>k. int k < i \<longrightarrow> ts' ! k = ts ! k))"
  using assms
proof (induction "nat (n - i)" arbitrary: i ts)
  case 0
  then have "[i..n - 1] = []" by simp
  with 0 show ?case by auto
next
  case (Suc m)
  then have le: "i \<le> n - 1" by simp
  then have up: "[i..n - 1] = i # [i + 1..n - 1]" by (simp add: upto_rec1)
  from Suc.prems(1) [unfolded up] obtain b a ts1 where
    b: "elem_get beta i = Inr b" and a: "elem_get alpha i = Inr a"
    and ts1: "elem_set ts i (b - a) = Inr ts1"
    and rest: "(if b - a < 0 then Inr (True, ts1)
                else TranslateToLocal_l_loop [i + 1..n - 1] beta alpha ts1) = Inr (flag, ts')"
    by (auto simp: bnd_eq_Inr)
  from b a have ba: "b = beta ! nat i" "a = alpha ! nat i"
    by (simp_all add: elem_get_Inr)
  from ts1 have t1: "ts1 = ts[nat i := b - a]" and ib: "i < int (length ts)"
    by (auto simp: elem_set_def in_bounds_def split: if_splits)
  show ?case
  proof (cases "b - a < 0")
    case True
    with rest have "flag" "ts' = ts1" by simp_all
    moreover have "i \<le> i \<and> i < n \<and> beta ! nat i < alpha ! nat i"
      using True le ba by simp
    ultimately show ?thesis using t1 Suc.prems(3) by auto
  next
    case False
    with rest have r: "TranslateToLocal_l_loop [i + 1..n - 1] beta alpha ts1 = Inr (flag, ts')"
      by simp
    have m: "m = nat (n - (i + 1))" using Suc(2) by simp
    have l1: "length ts1 = nat n" using t1 Suc.prems(3) by simp
    have i1: "0 \<le> i + 1" using Suc.prems(2) by simp
    note ih = Suc(1) [OF m r i1 l1]
    show ?thesis
    proof (intro conjI impI)
      show "length ts' = nat n" using ih by simp
    next
      assume "flag"
      with ih obtain d where "i + 1 \<le> d \<and> d < n \<and> beta ! nat d < alpha ! nat d" by blast
      then have "i \<le> d \<and> d < n \<and> beta ! nat d < alpha ! nat d" by simp
      then show "\<exists>d. i \<le> d \<and> d < n \<and> beta ! nat d < alpha ! nat d" ..
    next
      assume nf: "\<not> flag"
      show "\<forall>d. i \<le> d \<and> d < n \<longrightarrow>
               alpha ! nat d \<le> beta ! nat d \<and> ts' ! nat d = beta ! nat d - alpha ! nat d"
      proof (intro allI impI)
        fix d assume d: "i \<le> d \<and> d < n"
        show "alpha ! nat d \<le> beta ! nat d \<and> ts' ! nat d = beta ! nat d - alpha ! nat d"
        proof (cases "d = i")
          case True
          have "int (nat i) < i + 1" using Suc.prems(2) by simp
          with ih nf have "ts' ! nat i = ts1 ! nat i" by blast
          also have "\<dots> = b - a" using t1 ib Suc.prems(2) by simp
          finally show ?thesis using True False ba by simp
        next
          case False
          with d have "i + 1 \<le> d \<and> d < n" by simp
          with ih nf show ?thesis by blast
        qed
      qed
    next
      assume nf: "\<not> flag"
      show "\<forall>k. int k < i \<longrightarrow> ts' ! k = ts ! k"
      proof (intro allI impI)
        fix k assume k: "int k < i"
        then have "int k < i + 1" by simp
        with ih nf have "ts' ! k = ts1 ! k" by blast
        moreover have "k \<noteq> nat i" using k by auto
        ultimately show "ts' ! k = ts ! k" using t1 by simp
      qed
    qed
  qed
qed

lemma shift_power_loop:
  assumes l: "forM [0..dimn - 1] (\<lambda>l diff1.
                 bnd (elem_get (center_diff :: Vector) l) (\<lambda>c.
                 bnd (elem_get ts l) (\<lambda>e. Inr (diff1 * power_int c e)))) 1 = Inr diff1"
  shows "diff1 = prod_list (map (\<lambda>d. power_int (center_diff ! d) (ts ! d)) [0..<nat dimn])"
proof -
  define I where "I = (\<lambda>m (x :: real).
      x = prod_list (map (\<lambda>d. power_int (center_diff ! d) (ts ! d)) [0..<nat m]))"
  have "I (max 0 (dimn - 1 + 1)) diff1"
  proof (rule forM_upto_indexed [OF l])
    show "I 0 1" by (simp add: I_def)
  next
    fix i and s s' :: real
    assume i: "0 \<le> i" "i \<le> dimn - 1" and inv: "I i s"
      and b: "bnd (elem_get center_diff i) (\<lambda>c.
                 bnd (elem_get ts i) (\<lambda>e. Inr (s * power_int c e))) = Inr s'"
    from b have "s' = s * power_int (center_diff ! nat i) (ts ! nat i)"
      by (auto simp: bnd_eq_Inr elem_get_Inr)
    moreover have "[0..<nat (i + 1)] = [0..<nat i] @ [nat i]"
      using i(1) by (simp add: nat_add_distrib)
    ultimately show "I (i + 1) s'"
      using inv by (simp add: I_def)
  qed
  moreover have "nat (max 0 (dimn - 1 + 1)) = nat dimn" by simp
  ultimately show ?thesis by (simp add: I_def)
qed

lemma TranslateToLocal_k_loop_result:
  assumes "TranslateToLocal_k_loop sea coeffs center_diff dimn tnc j alpha us (pos, neg, ts)
             = Inr (pos', neg', ts')"
    and "length ts = nat dimn" and alpha: "alpha = get_multiindex sea j"
  shows "length ts' = nat dimn \<and>
         pos' + neg' = pos + neg + sum_list (local_products sea coeffs center_diff dimn tnc j us)"
  using assms(1,2)
proof (induction us arbitrary: pos neg ts)
  case Nil
  then show ?case by simp
next
  case (Cons u us)
  show ?case
  proof (cases "u \<ge> tnc")
    case True
    with Cons.prems show ?thesis by simp
  next
    case False
    define beta where "beta = get_multiindex sea u"
    from Cons.prems(1) False obtain flag ts1 where
      ll: "TranslateToLocal_l_loop [0..dimn - 1] beta alpha ts = Inr (flag, ts1)"
      and rest: "(if flag
            then TranslateToLocal_k_loop sea coeffs center_diff dimn tnc j alpha us (pos, neg, ts1)
            else bnd (forM [0..dimn - 1] (\<lambda>l diff1.
                           bnd (elem_get center_diff l) (\<lambda>c.
                           bnd (elem_get ts1 l) (\<lambda>e.
                             Inr (diff1 * power_int c e)))) 1) (\<lambda>diff1.
                    bnd (elem_get coeffs u) (\<lambda>coeff.
                    let prd = coeff * diff1 * get_n_multichoose_k_by_pos sea u j
                    in TranslateToLocal_k_loop sea coeffs center_diff dimn tnc j alpha us
                         (if prd > 0 then (pos + prd, neg, ts1)
                          else (pos, neg + prd, ts1))))) = Inr (pos', neg', ts')"
      by (auto simp: bnd_eq_Inr Let_def beta_def split: prod.splits)
    have z: "(0::int) \<le> 0" by simp
    note lr = TranslateToLocal_l_loop_result [OF ll z Cons.prems(2)]
    have l1: "length ts1 = nat dimn" using lr by simp
    show ?thesis
    proof (cases flag)
      case True
      with lr obtain d where "0 \<le> d \<and> d < dimn \<and> beta ! nat d < alpha ! nat d" by blast
      then have nb: "\<not> multiindex_below dimn alpha beta"
        unfolding multiindex_below_iff by force
      from rest True have
        "TranslateToLocal_k_loop sea coeffs center_diff dimn tnc j alpha us (pos, neg, ts1)
           = Inr (pos', neg', ts')" by simp
      from Cons.IH [OF this l1] False nb show ?thesis
        by (simp add: beta_def alpha)
    next
      case nf: False
      with lr have ok: "\<forall>d. 0 \<le> d \<and> d < dimn \<longrightarrow>
                          alpha ! nat d \<le> beta ! nat d \<and>
                          ts1 ! nat d = beta ! nat d - alpha ! nat d" by blast
      then have mb: "multiindex_below dimn alpha beta"
        unfolding multiindex_below_iff by blast
      from rest nf obtain diff1 coeff where
        dl: "forM [0..dimn - 1] (\<lambda>l diff1.
                           bnd (elem_get center_diff l) (\<lambda>c.
                           bnd (elem_get ts1 l) (\<lambda>e.
                             Inr (diff1 * power_int c e)))) 1 = Inr diff1"
        and cf: "elem_get coeffs u = Inr coeff"
        and rc: "TranslateToLocal_k_loop sea coeffs center_diff dimn tnc j alpha us
                   (if coeff * diff1 * get_n_multichoose_k_by_pos sea u j > 0
                    then (pos + coeff * diff1 * get_n_multichoose_k_by_pos sea u j, neg, ts1)
                    else (pos, neg + coeff * diff1 * get_n_multichoose_k_by_pos sea u j, ts1))
                 = Inr (pos', neg', ts')"
        by (auto simp: bnd_eq_Inr Let_def)
      have "map (\<lambda>d. power_int (center_diff ! d) (ts1 ! d)) [0..<nat dimn] =
            map (\<lambda>d. power_int (center_diff ! d) (beta ! d - alpha ! d)) [0..<nat dimn]"
      proof (rule map_cong [OF refl])
        fix d assume "d \<in> set [0..<nat dimn]"
        then have "0 \<le> int d \<and> int d < dimn" by simp
        with ok have "ts1 ! nat (int d) = beta ! nat (int d) - alpha ! nat (int d)" by blast
        then show "power_int (center_diff ! d) (ts1 ! d) =
            power_int (center_diff ! d) (beta ! d - alpha ! d)" by simp
      qed
      with shift_power_loop [OF dl] have d1: "diff1 = shift_power dimn center_diff beta alpha"
        by (simp add: shift_power_def)
      have cv: "coeff = coeffs ! nat u" using cf by (simp add: elem_get_Inr)
      define prd where "prd = coeff * diff1 * get_n_multichoose_k_by_pos sea u j"
      have lp: "local_products sea coeffs center_diff dimn tnc j (u # us) =
          prd # local_products sea coeffs center_diff dimn tnc j us"
        using False mb by (simp add: prd_def d1 cv beta_def alpha)
      show ?thesis
      proof (cases "prd > 0")
        case True
        with rc have "TranslateToLocal_k_loop sea coeffs center_diff dimn tnc j alpha us
            (pos + prd, neg, ts1) = Inr (pos', neg', ts')" by (simp add: prd_def)
        from Cons.IH [OF this l1] show ?thesis unfolding lp by simp
      next
        case False
        with rc have "TranslateToLocal_k_loop sea coeffs center_diff dimn tnc j alpha us
            (pos, neg + prd, ts1) = Inr (pos', neg', ts')" by (simp add: prd_def)
        from Cons.IH [OF this l1] show ?thesis unfolding lp by simp
      qed
    qed
  qed
qed

lemma TranslateToLocal_j_body_result:
  assumes b: "TranslateToLocal_j_body this se cd dimn tnc j (st, ts) = Inr (st', ts')"
    and lt: "length ts = nat dimn"
  shows "length ts' = nat dimn" and "0 \<le> j" and "j < int (length (coeffs_m (st se)))"
    and "st' = st(se := (st se)\<lparr>coeffs_m := (coeffs_m (st se))[nat j :=
            coeffs_m (st se) ! nat j +
            sum_list (local_products (sea_m (st this)) (coeffs_m (st this)) cd dimn tnc j
                        (get_upper_mapping_index (sea_m (st this)) ! nat j))]\<rparr>)"
proof -
  from b obtain us pos neg where
    us: "elem_get (get_upper_mapping_index (sea_m (st this))) j = Inr us"
    and kl: "TranslateToLocal_k_loop (sea_m (st this)) (coeffs_m (st this)) cd dimn tnc j
               (get_multiindex (sea_m (st this)) j) us (0, 0, ts) = Inr (pos, neg, ts')"
    and jb: "0 \<le> j" "j < int (length (coeffs_m (st se)))"
    and st': "st' = st(se := (st se)\<lparr>coeffs_m :=
                 (coeffs_m (st se))[nat j := coeffs_m (st se) ! nat j + (pos + neg)]\<rparr>)"
    by (auto simp: TranslateToLocal_j_body_def Let_def bnd_eq_Inr elem_get_Inr elem_set_def
        in_bounds_def split: prod.splits if_splits)
  note kr = TranslateToLocal_k_loop_result [OF kl lt refl]
  have u: "us = get_upper_mapping_index (sea_m (st this)) ! nat j"
    using us by (simp add: elem_get_Inr)
  show "length ts' = nat dimn" using kr by simp
  show "0 \<le> j" by (rule jb(1))
  show "j < int (length (coeffs_m (st se)))" by (rule jb(2))
  show "st' = st(se := (st se)\<lparr>coeffs_m := (coeffs_m (st se))[nat j :=
            coeffs_m (st se) ! nat j +
            sum_list (local_products (sea_m (st this)) (coeffs_m (st this)) cd dimn tnc j
                        (get_upper_mapping_index (sea_m (st this)) ! nat j))]\<rparr>)"
    using st' kr u by simp
qed

lemma TranslateToLocal_j_loop_result:
  assumes l: "forM [0..tnc - 1] (TranslateToLocal_j_body this se cd dimn tnc) (st, ts)
                = Inr (st', ts')"
    and lt: "length ts = nat dimn" and ne: "this \<noteq> se"
  shows "length (coeffs_m (st' se)) = length (coeffs_m (st se))"
    and "\<And>j. 0 \<le> j \<Longrightarrow> j < tnc \<Longrightarrow>
           coeffs_m (st' se) ! nat j = coeffs_m (st se) ! nat j +
             sum_list (local_products (sea_m (st this)) (coeffs_m (st this)) cd dimn tnc j
                         (get_upper_mapping_index (sea_m (st this)) ! nat j))"
    and "\<And>k. tnc \<le> int k \<Longrightarrow> coeffs_m (st' se) ! k = coeffs_m (st se) ! k"
proof -
  define T where "T = (\<lambda>j. sum_list (local_products (sea_m (st this)) (coeffs_m (st this)) cd
      dimn tnc j (get_upper_mapping_index (sea_m (st this)) ! nat j)))"
  define I where "I = (\<lambda>m (s :: store \<times> int list).
      length (snd s) = nat dimn \<and> fst s this = st this \<and>
      length (coeffs_m (fst s se)) = length (coeffs_m (st se)) \<and>
      (\<forall>j. 0 \<le> j \<and> j < m \<longrightarrow> coeffs_m (fst s se) ! nat j = coeffs_m (st se) ! nat j + T j) \<and>
      (\<forall>k. m \<le> int k \<longrightarrow> coeffs_m (fst s se) ! k = coeffs_m (st se) ! k))"
  have "I (max 0 (tnc - 1 + 1)) (st', ts')"
  proof (rule forM_upto_indexed [OF l])
    show "I 0 (st, ts)" unfolding I_def using lt by auto
  next
    fix m and s s' :: "store \<times> int list"
    assume m: "0 \<le> m" "m \<le> tnc - 1" and inv: "I m s"
      and b: "TranslateToLocal_j_body this se cd dimn tnc m s = Inr s'"
    obtain s1 t1 where s: "s = (s1, t1)" by (cases s)
    obtain s2 t2 where s': "s' = (s2, t2)" by (cases s')
    from inv have inv1: "length t1 = nat dimn" and inv2: "s1 this = st this"
      and inv3: "length (coeffs_m (s1 se)) = length (coeffs_m (st se))"
      and inv4: "\<forall>j. 0 \<le> j \<and> j < m \<longrightarrow>
                   coeffs_m (s1 se) ! nat j = coeffs_m (st se) ! nat j + T j"
      and inv5: "\<forall>k. m \<le> int k \<longrightarrow> coeffs_m (s1 se) ! k = coeffs_m (st se) ! k"
      unfolding I_def s by simp_all
    note r = TranslateToLocal_j_body_result [OF b [unfolded s s'] inv1]
    have c2: "coeffs_m (s2 se) = (coeffs_m (s1 se))[nat m := coeffs_m (s1 se) ! nat m + T m]"
      using r(4) by (simp add: T_def inv2)
    have mb: "nat m < length (coeffs_m (s1 se))" using r(2,3) by simp
    have n2: "s2 this = st this" using r(4) ne inv2 by simp
    have n3: "length (coeffs_m (s2 se)) = length (coeffs_m (st se))" using c2 inv3 by simp
    have n4: "\<forall>j. 0 \<le> j \<and> j < m + 1 \<longrightarrow>
                   coeffs_m (s2 se) ! nat j = coeffs_m (st se) ! nat j + T j"
    proof (intro allI impI)
      fix j assume j: "0 \<le> j \<and> j < m + 1"
      show "coeffs_m (s2 se) ! nat j = coeffs_m (st se) ! nat j + T j"
      proof (cases "j = m")
        case True
        have "coeffs_m (s1 se) ! nat m = coeffs_m (st se) ! nat m"
          using inv5 m(1) by simp
        with True c2 mb show ?thesis by simp
      next
        case False
        with j have jm: "0 \<le> j \<and> j < m" by simp
        then have "nat j \<noteq> nat m" by auto
        with c2 have "coeffs_m (s2 se) ! nat j = coeffs_m (s1 se) ! nat j" by simp
        with inv4 jm show ?thesis by simp
      qed
    qed
    have n5: "\<forall>k. m + 1 \<le> int k \<longrightarrow> coeffs_m (s2 se) ! k = coeffs_m (st se) ! k"
    proof (intro allI impI)
      fix k assume k: "m + 1 \<le> int k"
      then have "k \<noteq> nat m" using m(1) by auto
      with c2 have "coeffs_m (s2 se) ! k = coeffs_m (s1 se) ! k" by simp
      with inv5 k show "coeffs_m (s2 se) ! k = coeffs_m (st se) ! k" by simp
    qed
    show "I (m + 1) s'"
      unfolding I_def s' using r(1) n2 n3 n4 n5 by simp
  qed
  then have fin: "length (coeffs_m (st' se)) = length (coeffs_m (st se))"
      "\<forall>j. 0 \<le> j \<and> j < max 0 (tnc - 1 + 1) \<longrightarrow>
           coeffs_m (st' se) ! nat j = coeffs_m (st se) ! nat j + T j"
      "\<forall>k. max 0 (tnc - 1 + 1) \<le> int k \<longrightarrow> coeffs_m (st' se) ! k = coeffs_m (st se) ! k"
    unfolding I_def by simp_all
  show "length (coeffs_m (st' se)) = length (coeffs_m (st se))" by (rule fin(1))
  show "coeffs_m (st' se) ! nat j = coeffs_m (st se) ! nat j +
             sum_list (local_products (sea_m (st this)) (coeffs_m (st this)) cd dimn tnc j
                         (get_upper_mapping_index (sea_m (st this)) ! nat j))"
    if "0 \<le> j" "j < tnc" for j
    using fin(2) that by (simp add: T_def)
  show "coeffs_m (st' se) ! k = coeffs_m (st se) ! k" if "tnc \<le> int k" for k
    using fin(3) that by simp
qed

lemma TranslateToLocal_result:
  assumes "TranslateToLocal al kd this se st = Inr st'" and ne: "this \<noteq> se"
  shows "length (coeffs_m (st' se)) = length (coeffs_m (st se))"
    and "\<And>j. j < length (coeffs_m (st se)) \<Longrightarrow>
           coeffs_m (st' se) ! j = coeffs_m (st se) ! j +
             (if int j < get_total_num_coeffs (sea_m (st this)) (order_m (st this))
              then local_to_local_term kd (st this) (center_m (st se)) j else 0)"
proof -
  define st1 where "st1 = (if order_m (st se) < order_m (st this)
                      then st(se := (st se)\<lparr>order_m := order_m (st this)\<rparr>) else st)"
  define tnc where "tnc = get_total_num_coeffs (sea_m (st this)) (order_m (st this))"
  define dimn where "dimn = get_dimension (sea_m (st this))"
  define bf where "bf = BandwidthFactor kd (bandwidth_sq (kernel_m (st this)))"
  have s1: "st1 this = st this" "coeffs_m (st1 se) = coeffs_m (st se)"
    using ne by (simp_all add: st1_def)
  have unf: "TranslateToLocal al kd this se st =
      bnd (ArrayList_Init al dimn) (\<lambda>tmp_storage.
         bnd (Vector_Init al dimn) (\<lambda>center_diff.
            bnd (forM [0..dimn - 1] (\<lambda>d cd.
                   bnd (elem_get (center_m (st se)) d) (\<lambda>n.
                   bnd (elem_get (center_m (st this)) d) (\<lambda>c.
                     elem_set cd d ((n - c) / bf)))) center_diff) (\<lambda>center_diff.
            bnd (forM [0..tnc - 1]
                      (TranslateToLocal_j_body this se center_diff dimn tnc)
                      (st1, tmp_storage)) (\<lambda>(st, tmp_storage). Inr st))))"
    unfolding TranslateToLocal_def Let_def st1_def [symmetric] tnc_def dimn_def bf_def ..
  from assms(1) [unfolded unf] obtain ts0 cd0 cd ts' where
    ts0: "ArrayList_Init al dimn = Inr ts0"
    and cd0: "Vector_Init al dimn = Inr cd0"
    and cdl: "forM [0..dimn - 1] (\<lambda>d cd.
                   bnd (elem_get (center_m (st se)) d) (\<lambda>n.
                   bnd (elem_get (center_m (st this)) d) (\<lambda>c.
                     elem_set cd d ((n - c) / bf)))) cd0 = Inr cd"
    and jl: "forM [0..tnc - 1] (TranslateToLocal_j_body this se cd dimn tnc) (st1, ts0)
               = Inr (st', ts')"
    by (auto simp: bnd_eq_Inr split: prod.splits)
  define val1 where "val1 = (\<lambda>d. bnd (elem_get (center_m (st se)) d) (\<lambda>n.
      bnd (elem_get (center_m (st this)) d) (\<lambda>c. Inr ((n - c) / bf))))"
  have cdl': "forM [0..dimn - 1] (\<lambda>d cd. bnd (val1 d) (\<lambda>v. elem_set cd d v)) cd0 = Inr cd"
    using cdl by (simp add: val1_def bnd_assoc)
  note f1 = forM_fill [OF cdl']
  have lcd0: "length cd0 = nat dimn" using cd0 by (rule Vector_Init_length)
  have cd: "cd = scaled_difference (center_m (st se)) (center_m (st this)) bf dimn"
  proof (rule nth_equalityI)
    show "length cd = length (scaled_difference (center_m (st se)) (center_m (st this)) bf dimn)"
      using f1 lcd0 by simp
  next
    fix i assume "i < length cd"
    then have i: "0 \<le> int i \<and> int i < dimn" and i': "i < nat dimn"
      using f1 lcd0 by simp_all
    with f1 have "val1 (int i) = Inr (cd ! nat (int i))" by blast
    then have "cd ! i = (center_m (st se) ! i - center_m (st this) ! i) / bf"
      by (auto simp: val1_def bnd_eq_Inr elem_get_Inr)
    then show "cd ! i = scaled_difference (center_m (st se)) (center_m (st this)) bf dimn ! i"
      using i' by (simp add: scaled_difference_nth)
  qed
  have lt: "length ts0 = nat dimn" using ts0 by (rule ArrayList_Init_length)
  note jr = TranslateToLocal_j_loop_result [OF jl lt ne, unfolded s1]
  show "length (coeffs_m (st' se)) = length (coeffs_m (st se))" by (rule jr(1))
  show "coeffs_m (st' se) ! j = coeffs_m (st se) ! j +
             (if int j < get_total_num_coeffs (sea_m (st this)) (order_m (st this))
              then local_to_local_term kd (st this) (center_m (st se)) j else 0)"
    if j: "j < length (coeffs_m (st se))" for j
  proof (cases "int j < tnc")
    case True
    have "coeffs_m (st' se) ! nat (int j) = coeffs_m (st se) ! nat (int j) +
             sum_list (local_products (sea_m (st this)) (coeffs_m (st this)) cd dimn tnc (int j)
                         (get_upper_mapping_index (sea_m (st this)) ! nat (int j)))"
      using True by (intro jr(2)) simp_all
    with True show ?thesis
      by (simp add: local_to_local_term_def Let_def cd tnc_def dimn_def bf_def)
  next
    case False
    then have "tnc \<le> int j" by simp
    from jr(3) [OF this] False show ?thesis by (simp add: tnc_def)
  qed
qed

lemma ex_far0_coeffs: "coeffs_m ex_order1 = [0, 0, 0]"
  by (simp add: ex_order1_def ex_local_def)

lemma ex_far0_count: "get_total_num_coeffs (sea_m ex_order1) 1 = 2"
  by (simp add: ex_order1_def ex_local_def ex_sea_def)

lemma ex_far0_result:
  "map_sum id order_and_coeffs (TranslateFromFarField ex_alloc ex_kd ex_order1 ex_far0)
     = Inr (1, [1, 0, 0])"
  by (simp add: order_and_coeffs_def ex_eval_defs ex_order1_def ex_far0_def)

text \<open>A destination of order 1 and a source of order 0: position 1 lies below the coefficient
  count of the destination order and the normalised sum for it is 1, yet the call leaves
  the coefficient at 0; only position 0 is updated.\<close>

theorem TranslateFromFarField_skips_higher_orders:
  "map_sum id order_and_coeffs (TranslateFromFarField ex_alloc ex_kd ex_order1 ex_far0)
     = Inr (1, [1, 0, 0]) \<and>
   coeffs_m ex_order1 = [0, 0, 0] \<and>
   get_total_num_coeffs (sea_m ex_order1) 1 = 2 \<and>
   far_field_term ex_kd ex_order1 ex_far0 1 = 1"
  using ex_far0_result ex_far0_coeffs ex_far0_count ex_far0_term by simp

text \<open>Claim C3, amended. \<^verbatim>\<open>TranslateFromFarField\<close> raises the destination order to the source
  order when that is higher, and updates the destination positions below the coefficient
  count of the source order: to each of them it adds the sum, over every source position
  below that same count, of the source coefficient times the partial derivative indexed by
  the component-wise sum of the two multi-indices, normalised by the negated inverse
  factorial. Positions from that count on are left as they were, also when the
  destination order is higher than the source order.\<close>

theorem TranslateFromFarField_updates_source_count:
  assumes "TranslateFromFarField al kd this se = Inr e"
  shows "order_m e = max (order_m this) (ff_order se) \<and>
         length (coeffs_m e) = length (coeffs_m this) \<and>
         (\<forall>j. j < length (coeffs_m this) \<longrightarrow>
              coeffs_m e ! j = coeffs_m this ! j +
                (if int j < get_total_num_coeffs (sea_m this) (ff_order se)
                 then far_field_term kd this se j else 0))"
  using TranslateFromFarField_frame [OF assms] TranslateFromFarField_result [OF assms]
  by simp

lemma ex_far_result:
  "map_sum id order_and_coeffs (TranslateFromFarField ex_alloc ex_kd ex_local ex_far)
     = Inr (1, [- 1, - 1, 0])"
  by (simp add: order_and_coeffs_def ex_eval_defs ex_far_def)

lemma ex_far_terms:
  "far_field_term ex_kd ex_local ex_far 0 = - 1" "far_field_term ex_kd ex_local ex_far 1 = - 1"
  by (simp_all add: far_field_term_def far_field_sum_def far_field_product_def multiindex_sum_def
      scaled_difference_def ex_eval_defs ex_far_def)

theorem TranslateFromFarField_updates_source_count_witness:
  "map_sum id order_and_coeffs (TranslateFromFarField ex_alloc ex_kd ex_local ex_far)
     = Inr (1, [- 1, - 1, 0]) \<and>
   coeffs_m ex_local = [0, 0, 0] \<and>
   get_total_num_coeffs (sea_m ex_local) (ff_order ex_far) = 2 \<and>
   far_field_term ex_kd ex_local ex_far 0 = - 1 \<and>
   far_field_term ex_kd ex_local ex_far 1 = - 1"
proof -
  obtain e where e: "TranslateFromFarField ex_alloc ex_kd ex_local ex_far = Inr e"
    using ex_far_result
    by (cases "TranslateFromFarField ex_alloc ex_kd ex_local ex_far") simp_all
  note t = TranslateFromFarField_updates_source_count [OF e]
  have c: "coeffs_m ex_local = [0, 0, 0]"
    and n: "get_total_num_coeffs (sea_m ex_local) (ff_order ex_far) = 2"
    by (simp_all add: ex_local_def ex_sea_def ex_far_def)
  from t have "length (coeffs_m e) = length (coeffs_m ex_local)" by blast
  with ex_far_result ex_far_terms c n show ?thesis by simp
qed

text \<open>Claim C2. Both translations add into the destination buffer. After
  \<^verbatim>\<open>TranslateFromFarField\<close>, and after \<^verbatim>\<open>TranslateToLocal\<close> into an expansion other than the
  source, the buffer has its length and every coefficient is its value before the call plus
  a contribution; the contribution is a function of the source, the centres, the tables
  and the orders, and does not change when the destination buffer is replaced by another.
  Two far-field sources translated in turn leave the sum of both contributions.\<close>

theorem translations_are_additive:
  "(\<forall>e. TranslateFromFarField al kd this ff = Inr e \<longrightarrow>
        length (coeffs_m e) = length (coeffs_m this) \<and>
        (\<forall>j. j < length (coeffs_m this) \<longrightarrow>
             coeffs_m e ! j = coeffs_m this ! j + far_field_contribution kd this ff j)) \<and>
   (\<forall>c. far_field_contribution kd (this\<lparr>coeffs_m := c\<rparr>) ff = far_field_contribution kd this ff) \<and>
   (\<forall>st'. TranslateToLocal al kd src dst st = Inr st' \<and> src \<noteq> dst \<longrightarrow>
        length (coeffs_m (st' dst)) = length (coeffs_m (st dst)) \<and>
        (\<forall>j. j < length (coeffs_m (st dst)) \<longrightarrow>
             coeffs_m (st' dst) ! j = coeffs_m (st dst) ! j +
               local_contribution kd (st src) (center_m (st dst)) j)) \<and>
   (\<forall>e1 e2. TranslateFromFarField al kd this ff = Inr e1 \<and>
            TranslateFromFarField al kd e1 ff2 = Inr e2 \<longrightarrow>
        (\<forall>j. j < length (coeffs_m this) \<longrightarrow>
             coeffs_m e2 ! j = coeffs_m this ! j + far_field_contribution kd this ff j +
               far_field_contribution kd e1 ff2 j))"
proof (intro conjI allI impI)
  fix e assume e: "TranslateFromFarField al kd this ff = Inr e"
  show "length (coeffs_m e) = length (coeffs_m this)"
    by (rule TranslateFromFarField_result(1) [OF e])
  fix j assume "j < length (coeffs_m this)"
  then show "coeffs_m e ! j = coeffs_m this ! j + far_field_contribution kd this ff j"
    unfolding far_field_contribution_def by (rule TranslateFromFarField_result(2) [OF e])
next
  fix c show "far_field_contribution kd (this\<lparr>coeffs_m := c\<rparr>) ff =
      far_field_contribution kd this ff"
    by (simp add: far_field_contribution_def far_field_term_def fun_eq_iff)
next
  fix st' assume a: "TranslateToLocal al kd src dst st = Inr st' \<and> src \<noteq> dst"
  then have r: "TranslateToLocal al kd src dst st = Inr st'" and ne: "src \<noteq> dst" by simp_all
  show "length (coeffs_m (st' dst)) = length (coeffs_m (st dst))"
    by (rule TranslateToLocal_result(1) [OF r ne])
  fix j assume "j < length (coeffs_m (st dst))"
  then show "coeffs_m (st' dst) ! j = coeffs_m (st dst) ! j +
      local_contribution kd (st src) (center_m (st dst)) j"
    unfolding local_contribution_def by (rule TranslateToLocal_result(2) [OF r ne])
next
  fix e1 e2 j
  assume a: "TranslateFromFarField al kd this ff = Inr e1 \<and>
            TranslateFromFarField al kd e1 ff2 = Inr e2"
    and j: "j < length (coeffs_m this)"
  from a have r1: "TranslateFromFarField al kd this ff = Inr e1"
    and r2: "TranslateFromFarField al kd e1 ff2 = Inr e2" by simp_all
  have l1: "length (coeffs_m e1) = length (coeffs_m this)"
    by (rule TranslateFromFarField_result(1) [OF r1])
  have "coeffs_m e2 ! j = coeffs_m e1 ! j + far_field_contribution kd e1 ff2 j"
    unfolding far_field_contribution_def
    using j l1 by (intro TranslateFromFarField_result(2) [OF r2]) simp
  also have "coeffs_m e1 ! j = coeffs_m this ! j + far_field_contribution kd this ff j"
    unfolding far_field_contribution_def
    using j by (rule TranslateFromFarField_result(2) [OF r1])
  finally show "coeffs_m e2 ! j = coeffs_m this ! j + far_field_contribution kd this ff j +
               far_field_contribution kd e1 ff2 j" .
qed

lemma ex_pair_result:
  "map_sum id (\<lambda>st. order_and_coeffs (st 1)) (TranslateToLocal ex_alloc ex_kd 0 1 ex_pair)
     = Inr (1, [9 / 2, 5 / 2, 1])"
  by (simp add: order_and_coeffs_def ex_eval_defs ex_pair_def ex_source_def ex_target_def)

lemma ex_pair_terms:
  "local_contribution ex_kd ex_source [2] 0 = 7 / 2"
  "local_contribution ex_kd ex_source [2] 1 = 3 / 2"
  "local_contribution ex_kd ex_source [2] 2 = 0"
  by (simp_all add: local_contribution_def local_to_local_term_def shift_power_def
      multiindex_below_def scaled_difference_def ex_eval_defs ex_source_def)

lemma ex_two_sources:
  "map_sum id order_and_coeffs
     (bnd (TranslateFromFarField ex_alloc ex_kd ex_local ex_far)
        (\<lambda>e. TranslateFromFarField ex_alloc ex_kd e ex_far0)) = Inr (1, [0, - 1, 0])"
  by (simp add: order_and_coeffs_def ex_eval_defs ex_far_def ex_far0_def)

theorem translations_are_additive_witness:
  "map_sum id (\<lambda>st. order_and_coeffs (st 1)) (TranslateToLocal ex_alloc ex_kd 0 1 ex_pair)
     = Inr (1, [9 / 2, 5 / 2, 1]) \<and>
   coeffs_m (ex_pair 1) = [1, 1, 1] \<and>
   local_contribution ex_kd (ex_pair 0) (center_m (ex_pair 1)) 0 = 7 / 2 \<and>
   local_contribution ex_kd (ex_pair 0) (center_m (ex_pair 1)) 1 = 3 / 2 \<and>
   local_contribution ex_kd (ex_pair 0) (center_m (ex_pair 1)) 2 = 0 \<and>
   map_sum id order_and_coeffs
     (bnd (TranslateFromFarField ex_alloc ex_kd ex_local ex_far)
        (\<lambda>e. TranslateFromFarField ex_alloc ex_kd e ex_far0)) = Inr (1, [0, - 1, 0])"
proof -
  obtain st' where r: "TranslateToLocal ex_alloc ex_kd 0 1 ex_pair = Inr st'"
    using ex_pair_result by (cases "TranslateToLocal ex_alloc ex_kd 0 1 ex_pair") simp_all
  have ne: "(0::nat) \<noteq> 1" by simp
  from translations_are_additive [of ex_alloc ex_kd ex_local ex_far 0 1 ex_pair ex_far0] r ne
  have "length (coeffs_m (st' 1)) = length (coeffs_m (ex_pair 1))" by blast
  moreover have "ex_pair 0 = ex_source" "center_m (ex_pair 1) = [2]"
      "coeffs_m (ex_pair 1) = [1, 1, 1]"
    by (simp_all add: ex_pair_def ex_target_def ex_local_def)
  ultimately show ?thesis
    using ex_pair_result ex_pair_terms ex_two_sources by simp
qed


end
